theory Spec2Isabelle
  imports Main
begin

section \<open>Strings and paths\<close>

text \<open>
  File names are modelled as ASCII strings. \<open>lower\<close> is Python's \<open>str.lower\<close> on such
  strings: the letters A to Z are mapped to a to z, every other character is kept.
\<close>

definition lower_char :: "char \<Rightarrow> char" where
  "lower_char c =
     (case map_of (zip ''ABCDEFGHIJKLMNOPQRSTUVWXYZ'' ''abcdefghijklmnopqrstuvwxyz'') c of
        None \<Rightarrow> c
      | Some d \<Rightarrow> d)"

definition lower :: "string \<Rightarrow> string" where
  "lower s = map lower_char s"

text \<open>\<open>endswith s suf\<close> is Python's \<open>s.endswith(suf)\<close>.\<close>

definition endswith :: "string \<Rightarrow> string \<Rightarrow> bool" where
  "endswith s suf = (length suf \<le> length s \<and> drop (length s - length suf) s = suf)"

text \<open>
  \<open>basename\<close> is \<open>os.path.basename\<close> of \<open>posixpath\<close>: what follows the last slash.
  (The names that \<open>zipfile\<close> hands out use the slash as their separator; on Windows
  it has turned the backslashes of a name into slashes, and \<open>ntpath\<close> would also cut
  at a drive colon, which is not modelled.)
\<close>

definition basename :: "string \<Rightarrow> string" where
  "basename p = rev (takeWhile (\<lambda>c. c \<noteq> CHR ''/'') (rev p))"

text \<open>\<open>ZipInfo.is_dir\<close>: the member's name ends with a slash.\<close>

definition is_dir :: "string \<Rightarrow> bool" where
  "is_dir name = endswith name ''/''"

text \<open>
  A path is the list of its components. The destination of a member is
  \<open>mods_path / target_folder_name / base_filename\<close>; a category name is taken as one
  component, as it stands.
\<close>

type_synonym path = "string list"

text \<open>The directories that \<open>mkdir(parents=True)\<close> makes sure of: the path itself and
  every directory above it.\<close>

fun ancestors :: "path \<Rightarrow> path list" where
  "ancestors [] = []"
| "ancestors (c # cs) = [c] # map ((#) c) (ancestors cs)"

section \<open>Exceptions, archives, configuration\<close>

datatype exn = BadZipFile | ReError | OSError | OtherError

text \<open>
  A member of an archive: its name inside the archive and what reading it yields
  (the bytes, or the exception that \<open>ZipFile.read\<close> raises for it).
\<close>

record member =
  filename :: string
  payload :: "exn + string"

text \<open>
  An archive of the source folder: its file name and what opening it yields
  (\<open>infolist()\<close>, or the exception raised by \<open>zipfile.ZipFile(zip_path, 'r')\<close>).
\<close>

record archive =
  zip_name :: string
  zip_open :: "exn + member list"

text \<open>
  \<open>zip_ref.read(name)\<close> looks the member up by name; of several members with one name
  the archive's directory keeps the last.
\<close>

definition zip_read :: "member list \<Rightarrow> string \<Rightarrow> exn + string" where
  "zip_read ms name =
     (case filter (\<lambda>m. filename m = name) ms of
        [] \<Rightarrow> Inl OtherError
      | x # xs \<Rightarrow> payload (last (x # xs)))"

text \<open>
  The configuration document. A field that is absent is \<open>None\<close>; \<open>config.get\<close>
  supplies the default. The rules are a dictionary, iterated in insertion order:
  an association list.
\<close>

record config =
  sims_mods_path_override :: "string option"
  source_zips_folder :: "string option"
  unsorted_folder_name :: "string option"
  rules :: "(string \<times> string) list option"

definition get_unsorted_name :: "config \<Rightarrow> string" where
  "get_unsorted_name cfg =
     (case unsorted_folder_name cfg of None \<Rightarrow> ''_unsorted'' | Some n \<Rightarrow> n)"

definition get_rules :: "config \<Rightarrow> (string \<times> string) list" where
  "get_rules cfg = (case rules cfg of None \<Rightarrow> [] | Some r \<Rightarrow> r)"

text \<open>
  \<open>load_config\<close>: the configuration file is missing, is not valid JSON, or holds a
  document. The first two end the program; a document is returned as it is.
\<close>

datatype 'd config_file = Missing | NotJSON | Document 'd

datatype load_error = ConfigNotFound | ConfigInvalidJSON

definition load_config :: "'d config_file \<Rightarrow> load_error + 'd" where
  "load_config f =
     (case f of
        Missing \<Rightarrow> Inl ConfigNotFound
      | NotJSON \<Rightarrow> Inl ConfigInvalidJSON
      | Document d \<Rightarrow> Inr d)"

section \<open>Classification\<close>

text \<open>
  The rule loop of \<open>process_zips\<close>. Its parameter \<open>search p s\<close> stands for
  \<open>re.search(p, s, re.IGNORECASE)\<close>: \<open>Some True\<close> for a match object, \<open>Some False\<close>
  for \<open>None\<close>, and \<open>None\<close> when the pattern does not compile and \<open>re.error\<close> is raised.
  The result is \<open>(target_folder_name, found_match)\<close>.
\<close>

fun classify ::
  "(string \<Rightarrow> string \<Rightarrow> bool option) \<Rightarrow> (string \<times> string) list \<Rightarrow> string \<Rightarrow> string
     \<Rightarrow> exn + (string \<times> bool)" where
  "classify search [] unsorted_name base_filename = Inr (unsorted_name, False)"
| "classify search ((folder_key, pattern_str) # rest) unsorted_name base_filename =
     (case search pattern_str base_filename of
        None \<Rightarrow> Inl ReError
      | Some True \<Rightarrow> Inr (folder_key, True)
      | Some False \<Rightarrow> classify search rest unsorted_name base_filename)"

text \<open>
  \<open>re.search\<close> with \<open>re.IGNORECASE\<close> on the patterns whose only special characters
  are parentheses: unbalanced parentheses do not compile; otherwise the groups only
  bracket literal text, and the pattern hits where that text occurs in the string,
  letter case ignored. Patterns with other special characters are outside what this
  function describes; the examples below use none.
\<close>

fun balanced :: "nat \<Rightarrow> string \<Rightarrow> bool" where
  "balanced n [] = (n = 0)"
| "balanced n (c # cs) =
     (if c = CHR ''('' then balanced (Suc n) cs
      else if c = CHR '')'' then (case n of 0 \<Rightarrow> False | Suc k \<Rightarrow> balanced k cs)
      else balanced n cs)"

fun starts_with :: "string \<Rightarrow> string \<Rightarrow> bool" where
  "starts_with s [] = True"
| "starts_with [] (a # p) = False"
| "starts_with (b # s) (a # p) = (a = b \<and> starts_with s p)"

fun occurs_in :: "string \<Rightarrow> string \<Rightarrow> bool" where
  "occurs_in p [] = (p = [])"
| "occurs_in p (c # s) = (starts_with (c # s) p \<or> occurs_in p s)"

definition re_search_literal :: "string \<Rightarrow> string \<Rightarrow> bool option" where
  "re_search_literal p s =
     (if balanced 0 p
      then Some (occurs_in (lower (filter (\<lambda>c. c \<noteq> CHR ''('' \<and> c \<noteq> CHR '')'') p)) (lower s))
      else None)"

section \<open>The file system, the counters and the console\<close>

text \<open>
  What a run reads and changes: the files and directories of the destination tree,
  which archives lie in the source folder and in its \<open>processed_archive\<close> folder,
  the two counters of \<open>process_zips\<close>, and the lines printed so far.
\<close>

datatype event =
    CreatedSourceFolder
  | NoZipFiles
  | FoundZips nat
  | ProcessingArchive string
  | SkipExists string string
  | ExtractTo string string
  | FinishedArchive string
  | CorruptArchive string
  | UnexpectedError string exn
  | Done nat nat string

record world =
  files :: "path \<rightharpoonup> string"
  dirs :: "path set"
  in_source :: "string set"
  in_processed :: "string set"
  count_moved :: nat
  count_unsorted :: nat
  console :: "event list"

definition emit :: "event \<Rightarrow> world \<Rightarrow> world" where
  "emit e w = w\<lparr>console := console w @ [e]\<rparr>"

text \<open>\<open>Path.exists\<close>: a file or a directory is there.\<close>

definition path_exists :: "world \<Rightarrow> path \<Rightarrow> bool" where
  "path_exists w p = (files w p \<noteq> None \<or> p \<in> dirs w)"

text \<open>
  The failures of the environment, fixed for a run: whether creating a directory
  fails, how writing a new file at a path ends (it succeeds, the file cannot be opened,
  or the write breaks off after some bytes), and whether moving an archive to the
  processed folder fails.
\<close>

datatype write_result = WriteOk | OpenFails | WriteFails nat

record faults =
  mkdir_fails :: "path \<Rightarrow> bool"
  write_result_at :: "path \<Rightarrow> write_result"
  relocate_fails :: "string \<Rightarrow> bool"

text \<open>
  \<open>dest_dir.mkdir(parents=True, exist_ok=True)\<close>: raises when the environment refuses
  or a file is in the way; otherwise the directory and its missing parents exist.
\<close>

definition mkdir_parents :: "faults \<Rightarrow> path \<Rightarrow> world \<Rightarrow> exn + world" where
  "mkdir_parents flt d w =
     (if mkdir_fails flt d \<or> (\<exists>a \<in> set (ancestors d). files w a \<noteq> None) then Inl OSError
      else Inr (w\<lparr>dirs := dirs w \<union> set (ancestors d)\<rparr>))"

text \<open>
  \<open>with open(dest_file_path, 'wb') as f: f.write(zip_ref.read(file_info.filename))\<close>.
  The file is opened (created empty) before the member is read, and the member is read
  before anything is written.
\<close>

definition write_member ::
  "faults \<Rightarrow> member list \<Rightarrow> member \<Rightarrow> path \<Rightarrow> world \<Rightarrow> exn option \<times> world" where
  "write_member flt ms m dest w =
     (case write_result_at flt dest of
        OpenFails \<Rightarrow> (Some OSError, w)
      | WriteOk \<Rightarrow>
          (case zip_read ms (filename m) of
             Inl e \<Rightarrow> (Some e, w\<lparr>files := (files w)(dest \<mapsto> [])\<rparr>)
           | Inr d \<Rightarrow> (None, w\<lparr>files := (files w)(dest \<mapsto> d)\<rparr>))
      | WriteFails n \<Rightarrow>
          (case zip_read ms (filename m) of
             Inl e \<Rightarrow> (Some e, w\<lparr>files := (files w)(dest \<mapsto> [])\<rparr>)
           | Inr d \<Rightarrow> (Some OSError, w\<lparr>files := (files w)(dest \<mapsto> take n d)\<rparr>)))"

section \<open>The loop over the members of one archive\<close>

text \<open>
  How one pass of the loop body ends: by one of the two early \<open>continue\<close>s
  (\<open>Ignored\<close>), by the \<open>continue\<close> after \<open>[SKIP]\<close> (\<open>Skipped\<close>), at the end of the body
  (\<open>Extracted\<close>), or by an exception (\<open>Failed\<close>).
\<close>

datatype outcome = Ignored | Skipped | Extracted | Failed exn

definition process_member ::
  "(string \<Rightarrow> string \<Rightarrow> bool option) \<Rightarrow> (string \<times> string) list \<Rightarrow> string \<Rightarrow> path \<Rightarrow> faults
     \<Rightarrow> member list \<Rightarrow> member \<Rightarrow> world \<Rightarrow> outcome \<times> world" where
  "process_member search rls unsorted_name mods_path flt ms m w =
     (if \<not> endswith (lower (filename m)) ''.package'' \<or> is_dir (filename m) then (Ignored, w)
      else
        let base_filename = basename (filename m) in
        if base_filename = [] then (Ignored, w)
        else
          (case classify search rls unsorted_name base_filename of
             Inl e \<Rightarrow> (Failed e, w)
           | Inr (target_folder_name, found_match) \<Rightarrow>
               let dest_dir = mods_path @ [target_folder_name] in
               (case mkdir_parents flt dest_dir w of
                  Inl e \<Rightarrow> (Failed e, w)
                | Inr w1 \<Rightarrow>
                    let dest_file_path = dest_dir @ [base_filename] in
                    if path_exists w1 dest_file_path
                    then (Skipped, emit (SkipExists target_folder_name base_filename) w1)
                    else
                      (case write_member flt ms m dest_file_path
                              (emit (ExtractTo base_filename target_folder_name) w1) of
                         (Some e, w2) \<Rightarrow> (Failed e, w2)
                       | (None, w2) \<Rightarrow>
                           (Extracted,
                            if found_match then w2\<lparr>count_moved := count_moved w2 + 1\<rparr>
                            else w2\<lparr>count_unsorted := count_unsorted w2 + 1\<rparr>)))))"

text \<open>
  The \<open>for file_info in zip_ref.infolist()\<close> loop: an exception leaves the loop, and
  the members after it are not visited. The outcomes of the members visited are
  returned with the world.
\<close>

fun process_members ::
  "(string \<Rightarrow> string \<Rightarrow> bool option) \<Rightarrow> (string \<times> string) list \<Rightarrow> string \<Rightarrow> path \<Rightarrow> faults
     \<Rightarrow> member list \<Rightarrow> member list \<Rightarrow> world \<Rightarrow> outcome list \<times> world" where
  "process_members search rls unsorted_name mods_path flt ms [] w = ([], w)"
| "process_members search rls unsorted_name mods_path flt ms (m # rest) w =
     (case process_member search rls unsorted_name mods_path flt ms m w of
        (Failed e, w1) \<Rightarrow> ([Failed e], w1)
      | (oc, w1) \<Rightarrow>
          (case process_members search rls unsorted_name mods_path flt ms rest w1 of
             (ocs, w2) \<Rightarrow> (oc # ocs, w2)))"

definition raised :: "outcome list \<Rightarrow> exn option" where
  "raised ocs =
     (case ocs of
        [] \<Rightarrow> None
      | x # xs \<Rightarrow> (case last (x # xs) of Failed e \<Rightarrow> Some e | _ \<Rightarrow> None))"

section \<open>The loop over the archives\<close>

text \<open>The two \<open>except\<close> clauses.\<close>

definition handler :: "string \<Rightarrow> exn \<Rightarrow> world \<Rightarrow> world" where
  "handler name e w =
     (case e of
        BadZipFile \<Rightarrow> emit (CorruptArchive name) w
      | _ \<Rightarrow> emit (UnexpectedError name e) w)"

text \<open>
  \<open>processed_dir.mkdir(exist_ok=True)\<close> and \<open>shutil.move\<close>: the archive leaves the
  source folder for the processed folder, unless the environment refuses.
\<close>

definition relocate :: "faults \<Rightarrow> string \<Rightarrow> world \<Rightarrow> exn + world" where
  "relocate flt name w =
     (if relocate_fails flt name then Inl OSError
      else Inr (w\<lparr>in_source := in_source w - {name},
                  in_processed := insert name (in_processed w)\<rparr>))"

definition process_archive ::
  "(string \<Rightarrow> string \<Rightarrow> bool option) \<Rightarrow> config \<Rightarrow> path \<Rightarrow> faults \<Rightarrow> archive \<Rightarrow> world \<Rightarrow> world" where
  "process_archive search cfg mods_path flt a w =
     (let w0 = emit (ProcessingArchive (zip_name a)) w in
      case zip_open a of
        Inl e \<Rightarrow> handler (zip_name a) e w0
      | Inr ms \<Rightarrow>
          (case process_members search (get_rules cfg) (get_unsorted_name cfg) mods_path flt
                  ms ms w0 of
             (ocs, w1) \<Rightarrow>
               (case raised ocs of
                  Some e \<Rightarrow> handler (zip_name a) e w1
                | None \<Rightarrow>
                    (case relocate flt (zip_name a) w1 of
                       Inl e \<Rightarrow> handler (zip_name a) e w1
                     | Inr w2 \<Rightarrow> emit (FinishedArchive (zip_name a)) w2))))"

fun process_archives ::
  "(string \<Rightarrow> string \<Rightarrow> bool option) \<Rightarrow> config \<Rightarrow> path \<Rightarrow> faults \<Rightarrow> archive list \<Rightarrow> world \<Rightarrow> world" where
  "process_archives search cfg mods_path flt [] w = w"
| "process_archives search cfg mods_path flt (a # rest) w =
     process_archives search cfg mods_path flt rest
       (process_archive search cfg mods_path flt a w)"

text \<open>
  \<open>process_zips\<close>. \<open>source_exists\<close> says whether the source folder is there and
  \<open>zip_files\<close> is what \<open>glob("*.zip")\<close> lists. The program exits when it had to create
  the source folder, and returns early when there is no archive.
\<close>

datatype run_result = Exited world | Returned world

definition process_zips ::
  "(string \<Rightarrow> string \<Rightarrow> bool option) \<Rightarrow> config \<Rightarrow> path \<Rightarrow> faults \<Rightarrow> bool \<Rightarrow> archive list
     \<Rightarrow> world \<Rightarrow> run_result" where
  "process_zips search cfg mods_path flt source_exists zip_files w =
     (if \<not> source_exists then Exited (emit CreatedSourceFolder w)
      else if zip_files = [] then Returned (emit NoZipFiles w)
      else
        let w0 = emit (FoundZips (length zip_files)) w;
            w1 = w0\<lparr>count_moved := 0, count_unsorted := 0\<rparr>;
            w2 = process_archives search cfg mods_path flt zip_files w1
        in Returned (emit (Done (count_moved w2) (count_unsorted w2) (get_unsorted_name cfg)) w2))"

section \<open>Example data\<close>

text \<open>A destination tree that holds nothing but the Mods folder, and an environment
  in which nothing fails.\<close>

definition example_world :: world where
  "example_world =
     \<lparr>files = Map.empty, dirs = {[''Mods'']}, in_source = {''pack1.zip''}, in_processed = {},
      count_moved = 0, count_unsorted = 0, console = []\<rparr>"

definition no_faults :: faults where
  "no_faults =
     \<lparr>mkdir_fails = (\<lambda>_. False), write_result_at = (\<lambda>_. WriteOk),
      relocate_fails = (\<lambda>_. False)\<rparr>"

definition hair_rules :: "(string \<times> string) list" where
  "hair_rules = [(''hair'', ''hai''), (''accessories'', ''air'')]"



text \<open>The rule sets, archives and failures of the examples.\<close>

definition house_config :: config where
  "house_config =
     \<lparr>sims_mods_path_override = None, source_zips_folder = None, unsorted_folder_name = None,
      rules = Some [(''hair'', ''hair''), (''eyes'', ''eye'')]\<rparr>"

definition pack1_members :: "member list" where
  "pack1_members =
     [\<lparr>filename = ''a/RedHair.package'', payload = Inr ''R''\<rparr>,
      \<lparr>filename = ''b/GreenEye.package'', payload = Inr ''G''\<rparr>,
      \<lparr>filename = ''c/Shoe.package'', payload = Inr ''S''\<rparr>,
      \<lparr>filename = ''notes.txt'', payload = Inr ''N''\<rparr>]"

definition pack1 :: archive where
  "pack1 = \<lparr>zip_name = ''pack1.zip'', zip_open = Inr pack1_members\<rparr>"

definition corrupt_zip :: archive where
  "corrupt_zip = \<lparr>zip_name = ''pack1.zip'', zip_open = Inl BadZipFile\<rparr>"

definition bad_config :: config where
  "bad_config =
     \<lparr>sims_mods_path_override = None, source_zips_folder = None, unsorted_folder_name = None,
      rules = Some [(''hair'', ''hair''), (''broken'', ''('')]\<rparr>"

definition bad_pack :: "member list" where
  "bad_pack =
     [\<lparr>filename = ''a/RedHair.package'', payload = Inr ''R''\<rparr>,
      \<lparr>filename = ''c/Shoe.package'', payload = Inr ''S''\<rparr>]"

definition plain_config :: config where
  "plain_config =
     \<lparr>sims_mods_path_override = None, source_zips_folder = None, unsorted_folder_name = None,
      rules = None\<rparr>"

definition two_members :: "member list" where
  "two_members =
     [\<lparr>filename = ''a.package'', payload = Inr ''A''\<rparr>,
      \<lparr>filename = ''b.package'', payload = Inr ''B''\<rparr>]"

definition two_pack :: archive where
  "two_pack = \<lparr>zip_name = ''pack1.zip'', zip_open = Inr two_members\<rparr>"

text \<open>An environment in which \<open>a.package\<close> cannot be opened for writing in the
  fallback folder, and nothing else fails.\<close>

definition disk_faults :: faults where
  "disk_faults =
     \<lparr>mkdir_fails = (\<lambda>_. False),
      write_result_at =
        (\<lambda>p. if p = [''Mods'', ''_unsorted'', ''a.package''] then OpenFails else WriteOk),
      relocate_fails = (\<lambda>_. False)\<rparr>"

section \<open>Predicates used in the proofs\<close>

text \<open>
  \<open>grows n w w'\<close>: from \<open>w\<close> to \<open>w'\<close> no file that was there has changed, files have
  appeared only at paths of \<open>n\<close> components, no directory has gone, and no archive has
  moved.
\<close>

definition grows :: "nat \<Rightarrow> world \<Rightarrow> world \<Rightarrow> bool" where
  "grows n w w' \<longleftrightarrow>
     (\<forall>p c. files w p = Some c \<longrightarrow> files w' p = Some c) \<and>
     (\<forall>p. files w' p \<noteq> files w p \<longrightarrow> length p = n) \<and>
     dirs w \<subseteq> dirs w' \<and> in_source w' = in_source w \<and> in_processed w' = in_processed w"

text \<open>
  \<open>settled \<dots> m w\<close>: in the world \<open>w\<close> the member \<open>m\<close>, if it is in scope, classifies
  without an exception, its category folder is there and can be made sure of, and its
  destination exists.
\<close>

definition settled ::
  "(string \<Rightarrow> string \<Rightarrow> bool option) \<Rightarrow> (string \<times> string) list \<Rightarrow> string \<Rightarrow> path \<Rightarrow> faults
     \<Rightarrow> member \<Rightarrow> world \<Rightarrow> bool" where
  "settled search rls un mods_path flt m w \<longleftrightarrow>
     (endswith (lower (filename m)) ''.package'' \<longrightarrow>
        (\<exists>cat matched.
           classify search rls un (basename (filename m)) = Inr (cat, matched) \<and>
           \<not> mkdir_fails flt (mods_path @ [cat]) \<and>
           (\<forall>a \<in> set (ancestors (mods_path @ [cat])). files w a = None) \<and>
           set (ancestors (mods_path @ [cat])) \<subseteq> dirs w \<and>
           path_exists w (mods_path @ [cat, basename (filename m)])))"

section \<open>File names\<close>

lemma endswith_iff: "endswith s suf \<longleftrightarrow> (\<exists>pre. s = pre @ suf)"
proof
  assume "endswith s suf"
  then have "s = take (length s - length suf) s @ suf"
    by (metis append_take_drop_id endswith_def)
  then show "\<exists>pre. s = pre @ suf" ..
next
  assume "\<exists>pre. s = pre @ suf"
  then show "endswith s suf" by (auto simp: endswith_def)
qed

lemma endswith_last:
  assumes "endswith s suf" and "suf \<noteq> []"
  shows "s \<noteq> [] \<and> last s = last suf"
  using assms by (auto simp: endswith_iff)

lemma is_dir_iff: "is_dir name \<longleftrightarrow> name \<noteq> [] \<and> last name = CHR ''/''"
proof -
  have "(\<exists>pre. name = pre @ [CHR ''/'']) \<longleftrightarrow> name \<noteq> [] \<and> last name = CHR ''/''"
    by (metis append_butlast_last_id last_snoc snoc_eq_iff_butlast)
  then show ?thesis by (simp add: is_dir_def endswith_iff)
qed

lemma basename_empty_iff: "basename name = [] \<longleftrightarrow> name = [] \<or> last name = CHR ''/''"
proof (cases "name = []")
  case True
  then show ?thesis by (simp add: basename_def)
next
  case False
  then obtain c cs where rv: "rev name = c # cs" by (cases "rev name") auto
  then have "last name = c" by (metis False hd_rev list.sel(1))
  with rv False show ?thesis by (simp add: basename_def)
qed


lemma lower_char_slash: "lower_char c = CHR ''e'' \<Longrightarrow> c \<noteq> CHR ''/''"
  by (auto simp: lower_char_def)

lemma lower_append: "lower (a @ b) = lower a @ lower b"
  by (simp add: lower_def)

text \<open>A name that passes the extension test is not empty and does not end with a
  slash: it is no directory entry, and its base name is not empty.\<close>

lemma tracked_last:
  assumes "endswith (lower name) ''.package''"
  shows "name \<noteq> [] \<and> last name \<noteq> CHR ''/''"
proof -
  from assms have l: "lower name \<noteq> [] \<and> last (lower name) = CHR ''e''"
    using endswith_last [of "lower name" "''.package''"] by simp
  then have ne: "name \<noteq> []" by (auto simp: lower_def)
  with l have "lower_char (last name) = CHR ''e''" by (simp add: lower_def last_map)
  with ne show ?thesis using lower_char_slash by blast
qed

lemma tracked_not_dir: "endswith (lower name) ''.package'' \<Longrightarrow> \<not> is_dir name"
  using tracked_last by (simp add: is_dir_iff)

lemma tracked_basename: "endswith (lower name) ''.package'' \<Longrightarrow> basename name \<noteq> []"
  using tracked_last by (simp add: basename_empty_iff)

section \<open>One pass of the loop body\<close>

lemma process_member_tracked:
  assumes "endswith (lower (filename m)) ''.package''"
  shows "process_member search rls un mods_path flt ms m w =
     (case classify search rls un (basename (filename m)) of
        Inl e \<Rightarrow> (Failed e, w)
      | Inr (cat, matched) \<Rightarrow>
          (case mkdir_parents flt (mods_path @ [cat]) w of
             Inl e \<Rightarrow> (Failed e, w)
           | Inr w1 \<Rightarrow>
               if path_exists w1 (mods_path @ [cat, basename (filename m)])
               then (Skipped, emit (SkipExists cat (basename (filename m))) w1)
               else
                 (case write_member flt ms m (mods_path @ [cat, basename (filename m)])
                         (emit (ExtractTo (basename (filename m)) cat) w1) of
                    (Some e, w2) \<Rightarrow> (Failed e, w2)
                  | (None, w2) \<Rightarrow>
                      (Extracted,
                       if matched then w2\<lparr>count_moved := count_moved w2 + 1\<rparr>
                       else w2\<lparr>count_unsorted := count_unsorted w2 + 1\<rparr>))))"
  using assms tracked_not_dir [OF assms] tracked_basename [OF assms]
  by (simp add: process_member_def Let_def split: sum.splits prod.splits)

lemma process_member_untracked:
  "\<not> endswith (lower (filename m)) ''.package'' \<Longrightarrow>
   process_member search rls un mods_path flt ms m w = (Ignored, w)"
  by (simp add: process_member_def)

section \<open>Classification: the first rule that hits decides\<close>

lemma classify_append_miss:
  "\<forall>(k', p') \<in> set pre. search p' base = Some False \<Longrightarrow>
   classify search (pre @ rest) un base = classify search rest un base"
  by (induction pre) auto



text \<open>
  C6. Classification is a function of the search function, the rules, the fallback
  name and the file name alone; the file system is no argument of it. What it returns
  is a key of the rule set with \<open>found_match = True\<close>, or the fallback name with
  \<open>found_match = False\<close>; it raises only when some pattern of the rule set does not
  compile.
\<close>

theorem classify_result_category:
  "(case classify search rls un base of
      Inl e \<Rightarrow> e = ReError \<and> (\<exists>(k, p) \<in> set rls. search p base = None)
    | Inr (cat, matched) \<Rightarrow> (if matched then cat \<in> fst ` set rls else cat = un))"
proof (induction rls)
  case Nil
  show ?case by simp
next
  case (Cons r rls)
  obtain k p where r: "r = (k, p)" by (cases r)
  show ?case
  proof (cases "search p base")
    case None
    then show ?thesis by (simp add: r)
  next
    case (Some b)
    show ?thesis
    proof (cases b)
      case True
      with Some show ?thesis by (simp add: r)
    next
      case False
      with Some Cons.IH show ?thesis
        by (auto simp: r split: sum.splits prod.splits if_splits)
    qed
  qed
qed

theorem classify_result_category_witness:
  "classify re_search_literal hair_rules ''_unsorted'' ''Shoe.package''
     = Inr (''_unsorted'', False) \<and>
   classify re_search_literal hair_rules ''_unsorted'' ''RedHair.package''
     = Inr (''hair'', True) \<and>
   ''hair'' \<in> fst ` set hair_rules"
  using classify_result_category [where search = re_search_literal and rls = hair_rules
      and un = "''_unsorted''" and base = "''RedHair.package''"]
  by (simp add: hair_rules_def re_search_literal_def lower_def lower_char_def)

section \<open>Members outside the scope\<close>

text \<open>
  C7. A member that is a directory entry, or whose name does not end with
  \<open>.package\<close>, leaves the loop body at its first \<open>continue\<close>: it is not classified
  (whatever the search function would do), nothing is created or written, no counter
  moves and nothing is printed. The world is the same as before.
\<close>

theorem ineligible_member_untouched:
  "is_dir (filename m) \<or> \<not> endswith (lower (filename m)) ''.package'' \<Longrightarrow>
   process_member search rls un mods_path flt ms m w = (Ignored, w)"
  by (auto simp: process_member_def)

theorem ineligible_member_untouched_witness:
  "is_dir ''folder/'' \<and> \<not> endswith (lower ''readme.txt'') ''.package'' \<and>
   process_member (\<lambda>p s. None) hair_rules ''_unsorted'' [''Mods''] no_faults []
     \<lparr>filename = ''folder/'', payload = Inr []\<rparr> example_world = (Ignored, example_world) \<and>
   process_member (\<lambda>p s. None) hair_rules ''_unsorted'' [''Mods''] no_faults []
     \<lparr>filename = ''readme.txt'', payload = Inr ''text''\<rparr> example_world
     = (Ignored, example_world)"
  using
    ineligible_member_untouched [where m = "\<lparr>filename = ''folder/'', payload = Inr []\<rparr>"
      and search = "\<lambda>p s. None" and rls = hair_rules and un = "''_unsorted''"
      and mods_path = "[''Mods'']" and flt = no_faults and ms = "[]" and w = example_world]
    ineligible_member_untouched [where
      m = "\<lparr>filename = ''readme.txt'', payload = Inr ''text''\<rparr>"
      and search = "\<lambda>p s. None" and rls = hair_rules and un = "''_unsorted''"
      and mods_path = "[''Mods'']" and flt = no_faults and ms = "[]" and w = example_world]
  by (simp add: is_dir_def endswith_def lower_def lower_char_def)

text \<open>
  C9. A member whose base file name is empty leaves the loop body before
  classification: no directory is created for it, nothing is written, no counter
  moves, nothing is printed.
\<close>

theorem empty_basename_skipped:
  "basename (filename m) = [] \<Longrightarrow>
   process_member search rls un mods_path flt ms m w = (Ignored, w)"
  by (simp add: process_member_def)

theorem empty_basename_skipped_witness:
  "basename ''deep/folder/'' = [] \<and>
   process_member re_search_literal hair_rules ''_unsorted'' [''Mods''] no_faults []
     \<lparr>filename = ''deep/folder/'', payload = Inr []\<rparr> example_world
     = (Ignored, example_world)"
  using
    empty_basename_skipped [where m = "\<lparr>filename = ''deep/folder/'', payload = Inr []\<rparr>"
      and search = re_search_literal and rls = hair_rules and un = "''_unsorted''"
      and mods_path = "[''Mods'']" and flt = no_faults and ms = "[]" and w = example_world]
  by (simp add: basename_def)

text \<open>
  C10. The extension test ignores letter case: a name that ends with \<open>.package\<close> in
  any casing passes it, is no directory entry and has a base name, so its member is
  not ignored. What the loop body does with it is what it does with every member in
  scope: classify the base name, make sure of the category folder, skip when the
  destination exists, write and count otherwise. The casing of the extension plays no
  part in it.
\<close>

theorem extension_check_ignores_case:
  assumes "lower ext = ''.package''" and "filename m = stem @ ext"
  shows "endswith (lower (filename m)) ''.package'' \<and> \<not> is_dir (filename m) \<and>
     basename (filename m) \<noteq> [] \<and>
     fst (process_member search rls un mods_path flt ms m w) \<noteq> Ignored \<and>
     process_member search rls un mods_path flt ms m w =
       (case classify search rls un (basename (filename m)) of
          Inl e \<Rightarrow> (Failed e, w)
        | Inr (cat, matched) \<Rightarrow>
            (case mkdir_parents flt (mods_path @ [cat]) w of
               Inl e \<Rightarrow> (Failed e, w)
             | Inr w1 \<Rightarrow>
                 if path_exists w1 (mods_path @ [cat, basename (filename m)])
                 then (Skipped, emit (SkipExists cat (basename (filename m))) w1)
                 else
                   (case write_member flt ms m (mods_path @ [cat, basename (filename m)])
                           (emit (ExtractTo (basename (filename m)) cat) w1) of
                      (Some e, w2) \<Rightarrow> (Failed e, w2)
                    | (None, w2) \<Rightarrow>
                        (Extracted,
                         if matched then w2\<lparr>count_moved := count_moved w2 + 1\<rparr>
                         else w2\<lparr>count_unsorted := count_unsorted w2 + 1\<rparr>))))"
proof -
  have t: "endswith (lower (filename m)) ''.package''"
    using assms by (simp add: endswith_iff lower_append)
  have "fst (process_member search rls un mods_path flt ms m w) \<noteq> Ignored"
    by (simp add: process_member_tracked [OF t] split: sum.splits prod.splits option.splits)
  with t tracked_not_dir [OF t] tracked_basename [OF t] process_member_tracked [OF t]
  show ?thesis by simp
qed

theorem extension_check_ignores_case_witness:
  "lower ''.PaCkAgE'' = ''.package'' \<and>
   endswith (lower ''FOO.PaCkAgE'') ''.package'' \<and>
   fst (process_member re_search_literal hair_rules ''_unsorted'' [''Mods''] no_faults []
     \<lparr>filename = ''FOO.PaCkAgE'', payload = Inr ''x''\<rparr> example_world) \<noteq> Ignored"
proof -
  let ?m = "\<lparr>filename = ''FOO.PaCkAgE'', payload = Inr ''x''\<rparr>"
  have l: "lower ''.PaCkAgE'' = ''.package''" by (simp add: lower_def lower_char_def)
  have f: "filename ?m = ''FOO'' @ ''.PaCkAgE''" by simp
  from extension_check_ignores_case [OF l f, where search = re_search_literal
      and rls = hair_rules and un = "''_unsorted''" and mods_path = "[''Mods'']"
      and flt = no_faults and ms = "[]" and w = example_world]
  have "endswith (lower (filename ?m)) ''.package'' \<and>
      fst (process_member re_search_literal hair_rules ''_unsorted'' [''Mods''] no_faults []
        ?m example_world) \<noteq> Ignored"
    by blast
  with l show ?thesis by simp
qed

section \<open>What one pass of the loop body changes\<close>

lemma mkdir_parents_Inr:
  "mkdir_parents flt d w = Inr w1 \<Longrightarrow>
   w1 = w\<lparr>dirs := dirs w \<union> set (ancestors d)\<rparr> \<and> \<not> mkdir_fails flt d \<and>
   (\<forall>a \<in> set (ancestors d). files w a = None)"
  by (auto simp: mkdir_parents_def split: if_splits)

lemma write_member_files:
  "write_member flt ms m dest w = (r, w2) \<Longrightarrow>
   (\<forall>p. p \<noteq> dest \<longrightarrow> files w2 p = files w p) \<and> dirs w2 = dirs w \<and>
   in_source w2 = in_source w \<and> in_processed w2 = in_processed w \<and>
   count_moved w2 = count_moved w \<and> count_unsorted w2 = count_unsorted w \<and>
   console w2 = console w"
  by (auto simp: write_member_def split: write_result.splits sum.splits)

lemma write_member_None:
  "write_member flt ms m dest w = (None, w2) \<Longrightarrow>
   \<exists>d. zip_read ms (filename m) = Inr d \<and> write_result_at flt dest = WriteOk \<and>
       w2 = w\<lparr>files := (files w)(dest \<mapsto> d)\<rparr>"
  by (auto simp: write_member_def split: write_result.splits sum.splits)









section \<open>Nothing that exists is changed\<close>

lemma ancestors_length: "a \<in> set (ancestors p) \<Longrightarrow> length a \<le> length p"
  by (induction p arbitrary: a) auto

lemma grows_refl: "grows n w w"
  by (simp add: grows_def)

lemma grows_trans: "grows n w w1 \<Longrightarrow> grows n w1 w2 \<Longrightarrow> grows n w w2"
  unfolding grows_def by (metis subset_trans)

lemma grows_console: "grows n w (w\<lparr>console := c\<rparr>)"
  by (simp add: grows_def)

text \<open>One pass of the loop body only adds: a file that exists keeps its content.\<close>

lemma process_member_grows:
  assumes pm: "process_member search rls un mods_path flt ms m w = (oc, w')"
  shows "grows (length mods_path + 2) w w'"
proof (cases "endswith (lower (filename m)) ''.package''")
  case False
  with pm show ?thesis by (auto simp: process_member_untracked grows_refl)
next
  case t: True
  show ?thesis
  proof (cases "classify search rls un (basename (filename m))")
    case (Inl e)
    with pm t show ?thesis by (auto simp: process_member_tracked grows_refl)
  next
    case (Inr cm)
    obtain cat matched where cm: "cm = (cat, matched)" by (cases cm)
    show ?thesis
    proof (cases "mkdir_parents flt (mods_path @ [cat]) w")
      case (Inl e)
      with pm t Inr cm show ?thesis by (auto simp: process_member_tracked grows_refl)
    next
      case mk: (Inr w1)
      note mkd = mkdir_parents_Inr [OF mk]
      show ?thesis
      proof (cases "path_exists w1 (mods_path @ [cat, basename (filename m)])")
        case True
        with pm t Inr cm mk mkd show ?thesis
          by (auto simp: process_member_tracked emit_def grows_def)
      next
        case nex: False
        obtain r w2 where wm: "write_member flt ms m (mods_path @ [cat, basename (filename m)])
            (emit (ExtractTo (basename (filename m)) cat) w1) = (r, w2)"
          by (cases "write_member flt ms m (mods_path @ [cat, basename (filename m)])
            (emit (ExtractTo (basename (filename m)) cat) w1)")
        note wf = write_member_files [OF wm]
        from pm t Inr cm mk nex wm have eq:
          "files w' = files w2 \<and> dirs w' = dirs w2 \<and> in_source w' = in_source w2 \<and>
           in_processed w' = in_processed w2"
          by (auto simp: process_member_tracked split: option.splits if_splits)
        from nex mkd have free: "files w (mods_path @ [cat, basename (filename m)]) = None"
          by (simp add: path_exists_def)
        have "\<forall>p c. files w p = Some c \<longrightarrow> files w' p = Some c"
        proof (intro allI impI)
          fix p c
          assume a: "files w p = Some c"
          with free have "p \<noteq> mods_path @ [cat, basename (filename m)]" by auto
          with wf have "files w2 p = files (emit (ExtractTo (basename (filename m)) cat) w1) p"
            by simp
          also have "\<dots> = files w p" using mkd by (simp add: emit_def)
          finally show "files w' p = Some c" using eq a by simp
        qed
        moreover have "\<forall>p. files w' p \<noteq> files w p \<longrightarrow> length p = length mods_path + 2"
        proof (intro allI impI)
          fix p
          assume a: "files w' p \<noteq> files w p"
          have "files (emit (ExtractTo (basename (filename m)) cat) w1) p = files w p"
            using mkd by (simp add: emit_def)
          with a eq wf have "p = mods_path @ [cat, basename (filename m)]" by metis
          then show "length p = length mods_path + 2" by simp
        qed
        moreover have "dirs w \<subseteq> dirs w'" using eq wf mkd by (auto simp: emit_def)
        moreover have "in_source w' = in_source w \<and> in_processed w' = in_processed w"
          using eq wf mkd by (auto simp: emit_def)
        ultimately show ?thesis by (simp add: grows_def)
      qed
    qed
  qed
qed


section \<open>The loop over the members\<close>

lemma raised_Cons:
  "raised (oc # ocs) =
     (if ocs = [] then (case oc of Failed e \<Rightarrow> Some e | _ \<Rightarrow> None) else raised ocs)"
  by (cases ocs) (simp_all add: raised_def)

lemma process_members_fail:
  "process_member search rls un mods_path flt ms m w = (Failed e, w1) \<Longrightarrow>
   process_members search rls un mods_path flt ms (m # rest) w = ([Failed e], w1)"
  by simp

lemma process_members_step:
  assumes "process_member search rls un mods_path flt ms m w = (oc, w1)"
    and "\<forall>e. oc \<noteq> Failed e"
    and "process_members search rls un mods_path flt ms rest w1 = (ocs, w2)"
  shows "process_members search rls un mods_path flt ms (m # rest) w = (oc # ocs, w2)"
  using assms by (cases oc) simp_all

text \<open>The outcomes of a loop that ran to its end: every member in scope was skipped
  or extracted, every other member was ignored.\<close>

lemma process_members_done:
  assumes "process_members search rls un mods_path flt ms xs w = (ocs, w')"
    and "raised ocs = None"
  shows "list_all2 (\<lambda>m oc. if endswith (lower (filename m)) ''.package''
            then oc = Extracted \<or> oc = Skipped else oc = Ignored) xs ocs"
  using assms
proof (induction xs arbitrary: w ocs w')
  case Nil
  then show ?case by simp
next
  case (Cons m rest)
  obtain oc w1 where pm: "process_member search rls un mods_path flt ms m w = (oc, w1)"
    by (cases "process_member search rls un mods_path flt ms m w")
  obtain ocs' w2 where rec: "process_members search rls un mods_path flt ms rest w1 = (ocs', w2)"
    by (cases "process_members search rls un mods_path flt ms rest w1")
  show ?case
  proof (cases "\<exists>e. oc = Failed e")
    case True
    then obtain e where "oc = Failed e" ..
    with pm Cons.prems show ?thesis by (auto simp: raised_def)
  next
    case False
    then have nf: "\<forall>e. oc \<noteq> Failed e" by simp
    from process_members_step [OF pm nf rec] Cons.prems
    have ocs: "ocs = oc # ocs'" and w': "w' = w2" by simp_all
    from Cons.prems(2) ocs nf have "raised ocs' = None"
      by (cases ocs') (auto simp: raised_def split: outcome.splits)
    from Cons.IH [OF rec this] have tl: "list_all2 (\<lambda>m oc. if endswith (lower (filename m)) ''.package''
            then oc = Extracted \<or> oc = Skipped else oc = Ignored) rest ocs'" .
    have hd: "if endswith (lower (filename m)) ''.package''
            then oc = Extracted \<or> oc = Skipped else oc = Ignored"
    proof (cases "endswith (lower (filename m)) ''.package''")
      case True
      from pm nf show ?thesis
        by (auto simp: process_member_tracked [OF True] True
            split: sum.splits prod.splits if_splits option.splits)
    next
      case False
      with pm show ?thesis by (simp add: process_member_untracked)
    qed
    from hd tl ocs show ?thesis by simp
  qed
qed

lemma process_members_grows:
  "grows (length mods_path + 2) w
     (snd (process_members search rls un mods_path flt ms xs w))"
proof (induction xs arbitrary: w)
  case Nil
  show ?case by (simp add: grows_refl)
next
  case (Cons m rest)
  obtain oc w1 where pm: "process_member search rls un mods_path flt ms m w = (oc, w1)"
    by (cases "process_member search rls un mods_path flt ms m w")
  note g1 = process_member_grows [OF pm]
  show ?case
  proof (cases "\<exists>e. oc = Failed e")
    case True
    then obtain e where "oc = Failed e" ..
    with pm g1 show ?thesis by simp
  next
    case False
    then have nf: "\<forall>e. oc \<noteq> Failed e" by simp
    obtain ocs' w2 where rec: "process_members search rls un mods_path flt ms rest w1 = (ocs', w2)"
      by (cases "process_members search rls un mods_path flt ms rest w1")
    from Cons.IH [of w1] rec have "grows (length mods_path + 2) w1 w2" by simp
    with g1 have "grows (length mods_path + 2) w w2" by (rule grows_trans)
    with process_members_step [OF pm nf rec] show ?thesis by simp
  qed
qed

text \<open>A loop whose first part ran to its end goes on with the rest.\<close>

lemma process_members_append:
  assumes "process_members search rls un mods_path flt ms xs w = (ocs, w1)"
    and "raised ocs = None"
    and "process_members search rls un mods_path flt ms ys w1 = (ocs', w2)"
  shows "process_members search rls un mods_path flt ms (xs @ ys) w = (ocs @ ocs', w2)"
  using assms
proof (induction xs arbitrary: w ocs w1)
  case Nil
  then show ?case by simp
next
  case (Cons m rest)
  obtain oc wa where pm: "process_member search rls un mods_path flt ms m w = (oc, wa)"
    by (cases "process_member search rls un mods_path flt ms m w")
  obtain ocr wb where rec: "process_members search rls un mods_path flt ms rest wa = (ocr, wb)"
    by (cases "process_members search rls un mods_path flt ms rest wa")
  show ?case
  proof (cases "\<exists>e. oc = Failed e")
    case True
    then obtain e where "oc = Failed e" ..
    with pm Cons.prems show ?thesis by (auto simp: raised_def)
  next
    case False
    then have nf: "\<forall>e. oc \<noteq> Failed e" by simp
    from process_members_step [OF pm nf rec] Cons.prems(1)
    have ocs: "ocs = oc # ocr" and w1: "w1 = wb" by simp_all
    from Cons.prems(2) ocs nf have r: "raised ocr = None"
      by (cases ocr) (auto simp: raised_def split: outcome.splits)
    from Cons.prems(3) w1 have "process_members search rls un mods_path flt ms ys wb = (ocs', w2)"
      by simp
    from Cons.IH [OF rec r this]
    have "process_members search rls un mods_path flt ms (rest @ ys) wa = (ocr @ ocs', w2)" .
    from process_members_step [OF pm nf this] ocs show ?thesis by simp
  qed
qed

section \<open>One archive\<close>

lemma handler_fields:
  "files (handler name e w) = files w \<and> dirs (handler name e w) = dirs w \<and>
   in_source (handler name e w) = in_source w \<and>
   in_processed (handler name e w) = in_processed w \<and>
   count_moved (handler name e w) = count_moved w \<and>
   count_unsorted (handler name e w) = count_unsorted w \<and>
   console (handler name e w) =
     console w @ [if e = BadZipFile then CorruptArchive name else UnexpectedError name e]"
  by (cases e) (simp_all add: handler_def emit_def)

text \<open>An exception in the loop body ends the archive: the members after it are not
  visited, the exception is reported, and the archive is not moved.\<close>

lemma archive_member_failure:
  assumes op: "zip_open a = Inr ms"
    and sp: "ms = pre @ m # rest"
    and before: "process_members search (get_rules cfg) (get_unsorted_name cfg) mods_path flt
        ms pre (emit (ProcessingArchive (zip_name a)) w) = (ocs, w1)"
    and ok: "raised ocs = None"
    and pm: "process_member search (get_rules cfg) (get_unsorted_name cfg) mods_path flt
        ms m w1 = (Failed e, w2)"
  shows "process_members search (get_rules cfg) (get_unsorted_name cfg) mods_path flt
        ms ms (emit (ProcessingArchive (zip_name a)) w) = (ocs @ [Failed e], w2)"
    and "process_archive search cfg mods_path flt a w = handler (zip_name a) e w2"
    and "in_source (process_archive search cfg mods_path flt a w) = in_source w"
    and "in_processed (process_archive search cfg mods_path flt a w) = in_processed w"
proof -
  from process_members_fail [OF pm]
  have "process_members search (get_rules cfg) (get_unsorted_name cfg) mods_path flt
        ms (m # rest) w1 = ([Failed e], w2)" .
  from process_members_append [OF before ok this] sp
  show all: "process_members search (get_rules cfg) (get_unsorted_name cfg) mods_path flt
        ms ms (emit (ProcessingArchive (zip_name a)) w) = (ocs @ [Failed e], w2)" by simp
  have r: "raised (ocs @ [Failed e]) = Some e"
    by (cases ocs) (simp_all add: raised_def)
  from op all r show pa: "process_archive search cfg mods_path flt a w = handler (zip_name a) e w2"
    by (simp add: process_archive_def)
  have g: "grows (length mods_path + 2) (emit (ProcessingArchive (zip_name a)) w) w2"
    using process_members_grows [of mods_path "emit (ProcessingArchive (zip_name a)) w"
        search "get_rules cfg" "get_unsorted_name cfg" flt ms ms] all by simp
  from g pa show "in_source (process_archive search cfg mods_path flt a w) = in_source w"
    by (simp add: handler_fields grows_def emit_def)
  from g pa show "in_processed (process_archive search cfg mods_path flt a w) = in_processed w"
    by (simp add: handler_fields grows_def emit_def)
qed

lemma process_members_take_source:
  "in_source (snd (process_members search rls un mods_path flt ms (take k xs) w)) = in_source w"
  using process_members_grows [of mods_path w search rls un flt ms "take k xs"]
  by (simp add: grows_def)

text \<open>
  C3. When an archive has left the source folder, it had been opened, the loop over
  its members had run to its end with every member in scope extracted or skipped
  (and every other member ignored), the archive was still in the source folder after
  each part of that loop, and the move is the step that follows the last member. An
  archive that cannot be opened stays in the source folder: nothing is moved, no file
  or directory changes, the error is printed, and the run goes on with the archives
  that remain.
\<close>

theorem archive_moved_after_members:
  "(zip_name a \<in> in_source w \<and>
    zip_name a \<notin> in_source (process_archive search cfg mods_path flt a w) \<longrightarrow>
      (\<exists>ms ocs w1.
         zip_open a = Inr ms \<and>
         process_members search (get_rules cfg) (get_unsorted_name cfg) mods_path flt ms ms
           (emit (ProcessingArchive (zip_name a)) w) = (ocs, w1) \<and>
         list_all2 (\<lambda>m oc. if endswith (lower (filename m)) ''.package''
            then oc = Extracted \<or> oc = Skipped else oc = Ignored) ms ocs \<and>
         (\<forall>k. zip_name a \<in> in_source (snd (process_members search (get_rules cfg)
            (get_unsorted_name cfg) mods_path flt ms (take k ms)
            (emit (ProcessingArchive (zip_name a)) w)))) \<and>
         process_archive search cfg mods_path flt a w =
           emit (FinishedArchive (zip_name a))
             (w1\<lparr>in_source := in_source w1 - {zip_name a},
                 in_processed := insert (zip_name a) (in_processed w1)\<rparr>))) \<and>
   (\<forall>e. zip_open a = Inl e \<longrightarrow>
      in_source (process_archive search cfg mods_path flt a w) = in_source w \<and>
      in_processed (process_archive search cfg mods_path flt a w) = in_processed w \<and>
      files (process_archive search cfg mods_path flt a w) = files w \<and>
      dirs (process_archive search cfg mods_path flt a w) = dirs w \<and>
      console (process_archive search cfg mods_path flt a w) =
        console w @ [ProcessingArchive (zip_name a),
          if e = BadZipFile then CorruptArchive (zip_name a)
          else UnexpectedError (zip_name a) e] \<and>
      process_archives search cfg mods_path flt (a # others) w =
        process_archives search cfg mods_path flt others
          (handler (zip_name a) e (emit (ProcessingArchive (zip_name a)) w)))"
proof (intro conjI impI allI)
  fix e
  assume op: "zip_open a = Inl e"
  then have pa: "process_archive search cfg mods_path flt a w =
      handler (zip_name a) e (emit (ProcessingArchive (zip_name a)) w)"
    by (simp add: process_archive_def)
  show "in_source (process_archive search cfg mods_path flt a w) = in_source w"
    by (simp add: pa handler_fields emit_def)
  show "in_processed (process_archive search cfg mods_path flt a w) = in_processed w"
    by (simp add: pa handler_fields emit_def)
  show "files (process_archive search cfg mods_path flt a w) = files w"
    by (simp add: pa handler_fields emit_def)
  show "dirs (process_archive search cfg mods_path flt a w) = dirs w"
    by (simp add: pa handler_fields emit_def)
  show "console (process_archive search cfg mods_path flt a w) =
        console w @ [ProcessingArchive (zip_name a),
          if e = BadZipFile then CorruptArchive (zip_name a)
          else UnexpectedError (zip_name a) e]"
    by (simp add: pa handler_fields emit_def)
  show "process_archives search cfg mods_path flt (a # others) w =
        process_archives search cfg mods_path flt others
          (handler (zip_name a) e (emit (ProcessingArchive (zip_name a)) w))"
    by (simp add: pa)
next
  let ?w0 = "emit (ProcessingArchive (zip_name a)) w"
  assume mv: "zip_name a \<in> in_source w \<and>
    zip_name a \<notin> in_source (process_archive search cfg mods_path flt a w)"
  have src0: "in_source ?w0 = in_source w" by (simp add: emit_def)
  show "\<exists>ms ocs w1.
         zip_open a = Inr ms \<and>
         process_members search (get_rules cfg) (get_unsorted_name cfg) mods_path flt ms ms
           ?w0 = (ocs, w1) \<and>
         list_all2 (\<lambda>m oc. if endswith (lower (filename m)) ''.package''
            then oc = Extracted \<or> oc = Skipped else oc = Ignored) ms ocs \<and>
         (\<forall>k. zip_name a \<in> in_source (snd (process_members search (get_rules cfg)
            (get_unsorted_name cfg) mods_path flt ms (take k ms) ?w0))) \<and>
         process_archive search cfg mods_path flt a w =
           emit (FinishedArchive (zip_name a))
             (w1\<lparr>in_source := in_source w1 - {zip_name a},
                 in_processed := insert (zip_name a) (in_processed w1)\<rparr>)"
  proof (cases "zip_open a")
    case (Inl e)
    then have "in_source (process_archive search cfg mods_path flt a w) = in_source w"
      by (simp add: process_archive_def handler_fields emit_def)
    with mv show ?thesis by simp
  next
    case (Inr ms)
    obtain ocs w1 where all: "process_members search (get_rules cfg) (get_unsorted_name cfg)
        mods_path flt ms ms ?w0 = (ocs, w1)"
      by (cases "process_members search (get_rules cfg) (get_unsorted_name cfg)
        mods_path flt ms ms ?w0")
    have src1: "in_source w1 = in_source w"
      using process_members_grows [of mods_path ?w0 search "get_rules cfg"
          "get_unsorted_name cfg" flt ms ms] all src0 by (simp add: grows_def)
    have r: "raised ocs = None"
    proof (cases "raised ocs")
      case None
      then show ?thesis .
    next
      case (Some e)
      with Inr all have "process_archive search cfg mods_path flt a w = handler (zip_name a) e w1"
        by (simp add: process_archive_def)
      with src1 mv show ?thesis by (simp add: handler_fields)
    qed
    have nf: "\<not> relocate_fails flt (zip_name a)"
    proof
      assume "relocate_fails flt (zip_name a)"
      with Inr all r have "process_archive search cfg mods_path flt a w
          = handler (zip_name a) OSError w1"
        by (simp add: process_archive_def relocate_def)
      with src1 mv show False by (simp add: handler_fields)
    qed
    from Inr all r nf have pa: "process_archive search cfg mods_path flt a w =
           emit (FinishedArchive (zip_name a))
             (w1\<lparr>in_source := in_source w1 - {zip_name a},
                 in_processed := insert (zip_name a) (in_processed w1)\<rparr>)"
      by (simp add: process_archive_def relocate_def)
    have tk: "\<forall>k. zip_name a \<in> in_source (snd (process_members search (get_rules cfg)
            (get_unsorted_name cfg) mods_path flt ms (take k ms) ?w0))"
      using mv src0 by (simp add: process_members_take_source)
    from Inr all process_members_done [OF all r] tk pa show ?thesis by blast
  qed
qed

text \<open>The definitions that evaluate the loop body on the examples.\<close>

lemmas eval_defs = process_member_def Let_def basename_def is_dir_def endswith_def lower_def
  lower_char_def re_search_literal_def mkdir_parents_def path_exists_def emit_def
  write_member_def zip_read_def get_rules_def get_unsorted_name_def

lemma pack1_members_eval:
  "process_members re_search_literal (get_rules house_config) (get_unsorted_name house_config)
     [''Mods''] no_faults pack1_members pack1_members
     (emit (ProcessingArchive ''pack1.zip'') example_world) =
   ([Extracted, Extracted, Extracted, Ignored],
    example_world\<lparr>
      files := [[''Mods'', ''hair'', ''RedHair.package''] \<mapsto> ''R'',
                [''Mods'', ''eyes'', ''GreenEye.package''] \<mapsto> ''G'',
                [''Mods'', ''_unsorted'', ''Shoe.package''] \<mapsto> ''S''],
      dirs := {[''Mods''], [''Mods'', ''hair''], [''Mods'', ''eyes''], [''Mods'', ''_unsorted'']},
      count_moved := 2, count_unsorted := 1,
      console := [ProcessingArchive ''pack1.zip'', ExtractTo ''RedHair.package'' ''hair'',
        ExtractTo ''GreenEye.package'' ''eyes'', ExtractTo ''Shoe.package'' ''_unsorted'']\<rparr>)"
  by (simp add: eval_defs house_config_def pack1_members_def example_world_def no_faults_def
      insert_commute)

lemma pack1_archive_eval:
  "in_source (process_archive re_search_literal house_config [''Mods''] no_faults pack1
     example_world) = {} \<and>
   in_processed (process_archive re_search_literal house_config [''Mods''] no_faults pack1
     example_world) = {''pack1.zip''}"
proof -
  have nf: "\<not> relocate_fails no_faults ''pack1.zip''" by (simp add: no_faults_def)
  have src: "in_source example_world = {''pack1.zip''}" "in_processed example_world = {}"
    by (simp_all add: example_world_def)
  have "process_archive re_search_literal house_config [''Mods''] no_faults pack1 example_world
    = emit (FinishedArchive ''pack1.zip'')
        ((snd (process_members re_search_literal (get_rules house_config)
           (get_unsorted_name house_config) [''Mods''] no_faults pack1_members pack1_members
           (emit (ProcessingArchive ''pack1.zip'') example_world)))
         \<lparr>in_source := {}, in_processed := {''pack1.zip''}\<rparr>)"
    using nf src
    by (simp add: process_archive_def pack1_def pack1_members_eval raised_def relocate_def)
  then show ?thesis by (simp add: emit_def)
qed

theorem archive_moved_after_members_witness:
  "zip_name pack1 \<in> in_source example_world \<and>
   zip_name pack1 \<notin> in_source (process_archive re_search_literal house_config [''Mods'']
      no_faults pack1 example_world) \<and>
   fst (process_members re_search_literal (get_rules house_config)
      (get_unsorted_name house_config) [''Mods''] no_faults pack1_members pack1_members
      (emit (ProcessingArchive ''pack1.zip'') example_world))
     = [Extracted, Extracted, Extracted, Ignored] \<and>
   zip_open corrupt_zip = Inl BadZipFile \<and>
   in_source (process_archive re_search_literal house_config [''Mods''] no_faults corrupt_zip
      example_world) = {''pack1.zip''} \<and>
   in_processed (process_archive re_search_literal house_config [''Mods''] no_faults corrupt_zip
      example_world) = {} \<and>
   console (process_archive re_search_literal house_config [''Mods''] no_faults corrupt_zip
      example_world) = [ProcessingArchive ''pack1.zip'', CorruptArchive ''pack1.zip'']"
proof -
  have a: "zip_name pack1 \<in> in_source example_world"
    by (simp add: pack1_def example_world_def)
  have b: "zip_open corrupt_zip = Inl BadZipFile" "zip_name corrupt_zip = ''pack1.zip''"
    by (simp_all add: corrupt_zip_def)
  have c: "in_source example_world = {''pack1.zip''}" "in_processed example_world = {}"
    "console example_world = []"
    by (simp_all add: example_world_def)
  have d: "in_source (process_archive re_search_literal house_config [''Mods''] no_faults
        corrupt_zip example_world) = in_source example_world \<and>
      in_processed (process_archive re_search_literal house_config [''Mods''] no_faults
        corrupt_zip example_world) = in_processed example_world \<and>
      console (process_archive re_search_literal house_config [''Mods''] no_faults
        corrupt_zip example_world) =
        console example_world @ [ProcessingArchive (zip_name corrupt_zip),
          if BadZipFile = BadZipFile then CorruptArchive (zip_name corrupt_zip)
          else UnexpectedError (zip_name corrupt_zip) BadZipFile]"
    using
      archive_moved_after_members [where a = corrupt_zip and w = example_world
        and search = re_search_literal and cfg = house_config and mods_path = "[''Mods'']"
        and flt = no_faults and others = "[]"] b(1)
    by blast
  from a b c d show ?thesis
    by (simp add: pack1_archive_eval pack1_members_eval)
qed

section \<open>An exception in the loop body\<close>

text \<open>
  C4, as the specification states it, does not hold: a write that fails raises inside
  the loop over the members, and the only handlers are around the whole archive. In
  the example \<open>a.package\<close> cannot be opened for writing; its sibling \<open>b.package\<close>,
  which could be written, is never visited.
\<close>

theorem write_failure_counterexample:
  "write_result_at disk_faults [''Mods'', ''_unsorted'', ''a.package''] = OpenFails \<and>
   write_result_at disk_faults [''Mods'', ''_unsorted'', ''b.package''] = WriteOk \<and>
   fst (process_members re_search_literal (get_rules plain_config)
      (get_unsorted_name plain_config) [''Mods''] disk_faults two_members two_members
      (emit (ProcessingArchive ''pack1.zip'') example_world)) = [Failed OSError] \<and>
   files (process_archive re_search_literal plain_config [''Mods''] disk_faults two_pack
      example_world) [''Mods'', ''_unsorted'', ''b.package''] = None \<and>
   console (process_archive re_search_literal plain_config [''Mods''] disk_faults two_pack
      example_world) =
     [ProcessingArchive ''pack1.zip'', ExtractTo ''a.package'' ''_unsorted'',
      UnexpectedError ''pack1.zip'' OSError]"
  by (simp add: process_archive_def two_pack_def raised_def handler_def eval_defs
      plain_config_def two_members_def example_world_def disk_faults_def)

text \<open>
  C4, amended. When the write of a member fails, the member is counted neither as
  sorted nor as unsorted, the loop over the members of that archive ends there (the
  members after it are not visited), the failure is printed once for the archive, the
  archive is not moved, and the run goes on with the next archive. What the members
  before it did stays.
\<close>

theorem write_failure_ends_archive:
  assumes op: "zip_open a = Inr ms"
    and sp: "ms = pre @ m # rest"
    and before: "process_members search (get_rules cfg) (get_unsorted_name cfg) mods_path flt
        ms pre (emit (ProcessingArchive (zip_name a)) w) = (ocs, w1)"
    and ok: "raised ocs = None"
    and t: "endswith (lower (filename m)) ''.package''"
    and cls: "classify search (get_rules cfg) (get_unsorted_name cfg) (basename (filename m))
        = Inr (cat, matched)"
    and mk: "mkdir_parents flt (mods_path @ [cat]) w1 = Inr w2"
    and free: "\<not> path_exists w2 (mods_path @ [cat, basename (filename m)])"
    and wf: "write_member flt ms m (mods_path @ [cat, basename (filename m)])
        (emit (ExtractTo (basename (filename m)) cat) w2) = (Some e, w3)"
  shows "process_members search (get_rules cfg) (get_unsorted_name cfg) mods_path flt ms ms
        (emit (ProcessingArchive (zip_name a)) w) = (ocs @ [Failed e], w3) \<and>
     count_moved w3 = count_moved w1 \<and> count_unsorted w3 = count_unsorted w1 \<and>
     process_archive search cfg mods_path flt a w =
       emit (if e = BadZipFile then CorruptArchive (zip_name a)
             else UnexpectedError (zip_name a) e) w3 \<and>
     in_source (process_archive search cfg mods_path flt a w) = in_source w \<and>
     in_processed (process_archive search cfg mods_path flt a w) = in_processed w \<and>
     process_archives search cfg mods_path flt (a # others) w =
       process_archives search cfg mods_path flt others
         (emit (if e = BadZipFile then CorruptArchive (zip_name a)
                else UnexpectedError (zip_name a) e) w3)"
proof -
  from cls mk free wf
  have pm: "process_member search (get_rules cfg) (get_unsorted_name cfg) mods_path flt
        ms m w1 = (Failed e, w3)"
    by (simp add: process_member_tracked [OF t])
  note f = archive_member_failure [OF op sp before ok pm]
  have h: "handler (zip_name a) e w3 =
      emit (if e = BadZipFile then CorruptArchive (zip_name a)
            else UnexpectedError (zip_name a) e) w3"
    by (cases e) (simp_all add: handler_def)
  from write_member_files [OF wf] mkdir_parents_Inr [OF mk]
  have cnt: "count_moved w3 = count_moved w1 \<and> count_unsorted w3 = count_unsorted w1"
    by (simp add: emit_def)
  from f h cnt show ?thesis by simp
qed

theorem write_failure_ends_archive_witness:
  "process_members re_search_literal (get_rules plain_config) (get_unsorted_name plain_config)
      [''Mods''] disk_faults two_members two_members
      (emit (ProcessingArchive (zip_name two_pack)) example_world) =
     ([Failed OSError],
      example_world\<lparr>dirs := {[''Mods''], [''Mods'', ''_unsorted'']},
        console := [ProcessingArchive ''pack1.zip'', ExtractTo ''a.package'' ''_unsorted'']\<rparr>) \<and>
   in_source (process_archive re_search_literal plain_config [''Mods''] disk_faults two_pack
      example_world) = {''pack1.zip''}"
proof -
  let ?w0 = "emit (ProcessingArchive (zip_name two_pack)) example_world"
  let ?w2 = "?w0\<lparr>dirs := {[''Mods''], [''Mods'', ''_unsorted'']}\<rparr>"
  let ?m = "\<lparr>filename = ''a.package'', payload = Inr ''A''\<rparr>"
  have 1: "zip_open two_pack = Inr two_members" by (simp add: two_pack_def)
  have 2: "two_members = [] @ ?m # [\<lparr>filename = ''b.package'', payload = Inr ''B''\<rparr>]"
    by (simp add: two_members_def)
  have 3: "process_members re_search_literal (get_rules plain_config)
      (get_unsorted_name plain_config) [''Mods''] disk_faults two_members [] ?w0 = ([], ?w0)"
    by simp
  have 4: "raised [] = None" by (simp add: raised_def)
  have 5: "endswith (lower (filename ?m)) ''.package''"
    by (simp add: endswith_def lower_def lower_char_def)
  have 6: "classify re_search_literal (get_rules plain_config) (get_unsorted_name plain_config)
      (basename (filename ?m)) = Inr (''_unsorted'', False)"
    by (simp add: get_rules_def get_unsorted_name_def plain_config_def)
  have 7: "mkdir_parents disk_faults ([''Mods''] @ [''_unsorted'']) ?w0 = Inr ?w2"
    by (simp add: mkdir_parents_def disk_faults_def emit_def example_world_def insert_commute)
  have 8: "\<not> path_exists ?w2 ([''Mods''] @ [''_unsorted'', basename (filename ?m)])"
    by (simp add: path_exists_def emit_def example_world_def basename_def)
  have 9: "write_member disk_faults two_members ?m
      ([''Mods''] @ [''_unsorted'', basename (filename ?m)])
      (emit (ExtractTo (basename (filename ?m)) ''_unsorted'') ?w2)
      = (Some OSError, emit (ExtractTo (basename (filename ?m)) ''_unsorted'') ?w2)"
    by (simp add: write_member_def disk_faults_def basename_def)
  show ?thesis
    using write_failure_ends_archive [OF 1 2 3 4 5 6 7 8 9, of "[]"]
    by (simp add: emit_def example_world_def basename_def two_pack_def)
qed

section \<open>A pattern that does not compile\<close>

lemma bad_pack_eval:
  "process_members re_search_literal (get_rules bad_config) (get_unsorted_name bad_config)
      [''Mods''] no_faults bad_pack bad_pack
      (emit (ProcessingArchive ''pack1.zip'') example_world) =
     ([Extracted, Failed ReError],
      example_world\<lparr>files := [[''Mods'', ''hair'', ''RedHair.package''] \<mapsto> ''R''],
        dirs := {[''Mods''], [''Mods'', ''hair'']}, count_moved := 1,
        console := [ProcessingArchive ''pack1.zip'', ExtractTo ''RedHair.package'' ''hair'']\<rparr>)"
  by (simp add: eval_defs bad_config_def bad_pack_def example_world_def no_faults_def
      insert_commute)

text \<open>
  C5, as the specification states it, does not hold: loading the configuration
  returns the document as it is and compiles no pattern. With the rules
  \<open>{"hair": "hair", "broken": "("}\<close> loading succeeds, \<open>a/RedHair.package\<close> is
  extracted, and the pattern \<open>(\<close> fails when \<open>c/Shoe.package\<close> is classified.
\<close>

theorem malformed_pattern_counterexample:
  "load_config (Document bad_config) = Inr bad_config \<and>
   re_search_literal ''('' ''Shoe.package'' = None \<and>
   fst (process_members re_search_literal (get_rules bad_config) (get_unsorted_name bad_config)
      [''Mods''] no_faults bad_pack bad_pack
      (emit (ProcessingArchive ''pack1.zip'') example_world)) = [Extracted, Failed ReError]"
  by (simp add: bad_pack_eval load_config_def re_search_literal_def)

text \<open>
  C5, amended. A pattern that does not compile is not found when the configuration
  is loaded. It fails per file: for the first member in scope whose name none of the
  rules before that pattern hits, classification raises. Nothing is created, written
  or counted for that member, the loop over the members of the archive ends there,
  the error is printed for the archive, the archive is not moved, and the run goes on
  with the next archive. What the members before it did stays.
\<close>

theorem malformed_pattern_fails_per_file:
  assumes rl: "get_rules cfg = pre @ (k, p) # post"
    and miss: "\<forall>(k', p') \<in> set pre. search p' (basename (filename m)) = Some False"
    and bad: "search p (basename (filename m)) = None"
    and t: "endswith (lower (filename m)) ''.package''"
    and op: "zip_open a = Inr ms"
    and sp: "ms = before @ m # rest"
    and bf: "process_members search (get_rules cfg) (get_unsorted_name cfg) mods_path flt
        ms before (emit (ProcessingArchive (zip_name a)) w) = (ocs, w1)"
    and ok: "raised ocs = None"
  shows "load_config (Document cfg) = Inr cfg \<and>
     classify search (get_rules cfg) (get_unsorted_name cfg) (basename (filename m))
       = Inl ReError \<and>
     process_member search (get_rules cfg) (get_unsorted_name cfg) mods_path flt ms m w1
       = (Failed ReError, w1) \<and>
     process_members search (get_rules cfg) (get_unsorted_name cfg) mods_path flt ms ms
        (emit (ProcessingArchive (zip_name a)) w) = (ocs @ [Failed ReError], w1) \<and>
     process_archive search cfg mods_path flt a w
       = emit (UnexpectedError (zip_name a) ReError) w1 \<and>
     in_source (process_archive search cfg mods_path flt a w) = in_source w \<and>
     process_archives search cfg mods_path flt (a # others) w =
       process_archives search cfg mods_path flt others
         (emit (UnexpectedError (zip_name a) ReError) w1)"
proof -
  have cls: "classify search (get_rules cfg) (get_unsorted_name cfg) (basename (filename m))
       = Inl ReError"
    using rl miss bad by (simp add: classify_append_miss)
  then have pm: "process_member search (get_rules cfg) (get_unsorted_name cfg) mods_path flt
       ms m w1 = (Failed ReError, w1)"
    by (simp add: process_member_tracked [OF t])
  note f = archive_member_failure [OF op sp bf ok pm]
  have h: "handler (zip_name a) ReError w1 = emit (UnexpectedError (zip_name a) ReError) w1"
    by (simp add: handler_def)
  from cls pm f h show ?thesis by (simp add: load_config_def)
qed

theorem malformed_pattern_fails_per_file_witness:
  "load_config (Document bad_config) = Inr bad_config \<and>
   process_members re_search_literal (get_rules bad_config) (get_unsorted_name bad_config)
      [''Mods''] no_faults bad_pack bad_pack
      (emit (ProcessingArchive ''pack1.zip'') example_world) =
     ([Extracted, Failed ReError],
      example_world\<lparr>files := [[''Mods'', ''hair'', ''RedHair.package''] \<mapsto> ''R''],
        dirs := {[''Mods''], [''Mods'', ''hair'']}, count_moved := 1,
        console := [ProcessingArchive ''pack1.zip'', ExtractTo ''RedHair.package'' ''hair'']\<rparr>) \<and>
   console (process_archive re_search_literal bad_config [''Mods''] no_faults
      \<lparr>zip_name = ''pack1.zip'', zip_open = Inr bad_pack\<rparr> example_world) =
     [ProcessingArchive ''pack1.zip'', ExtractTo ''RedHair.package'' ''hair'',
      UnexpectedError ''pack1.zip'' ReError] \<and>
   in_source (process_archive re_search_literal bad_config [''Mods''] no_faults
      \<lparr>zip_name = ''pack1.zip'', zip_open = Inr bad_pack\<rparr> example_world) = {''pack1.zip''}"
proof -
  let ?a = "\<lparr>zip_name = ''pack1.zip'', zip_open = Inr bad_pack\<rparr>"
  let ?m = "\<lparr>filename = ''c/Shoe.package'', payload = Inr ''S''\<rparr>"
  let ?hd = "\<lparr>filename = ''a/RedHair.package'', payload = Inr ''R''\<rparr>"
  let ?w1 = "example_world\<lparr>files := [[''Mods'', ''hair'', ''RedHair.package''] \<mapsto> ''R''],
        dirs := {[''Mods''], [''Mods'', ''hair'']}, count_moved := 1,
        console := [ProcessingArchive ''pack1.zip'', ExtractTo ''RedHair.package'' ''hair'']\<rparr>"
  have 1: "get_rules bad_config = [(''hair'', ''hair'')] @ (''broken'', ''('') # []"
    by (simp add: get_rules_def bad_config_def)
  have 2: "\<forall>(k', p') \<in> set [(''hair'', ''hair'')].
      re_search_literal p' (basename (filename ?m)) = Some False"
    by (simp add: re_search_literal_def basename_def lower_def lower_char_def)
  have 3: "re_search_literal ''('' (basename (filename ?m)) = None"
    by (simp add: re_search_literal_def)
  have 4: "endswith (lower (filename ?m)) ''.package''"
    by (simp add: endswith_def lower_def lower_char_def)
  have 5: "zip_open ?a = Inr bad_pack" by simp
  have 6: "bad_pack = [?hd] @ ?m # []" by (simp add: bad_pack_def)
  have 7: "process_members re_search_literal (get_rules bad_config)
      (get_unsorted_name bad_config) [''Mods''] no_faults bad_pack [?hd]
      (emit (ProcessingArchive (zip_name ?a)) example_world) = ([Extracted], ?w1)"
    by (simp add: eval_defs bad_config_def bad_pack_def example_world_def no_faults_def
      insert_commute)
  have 8: "raised [Extracted] = None" by (simp add: raised_def)
  show ?thesis
    using malformed_pattern_fails_per_file [OF 1 2 3 4 5 6 7 8, where others = "[]"]
    by (simp add: emit_def example_world_def)
qed

section \<open>A second pass over the same members\<close>

lemma settled_console:
  "settled search rls un mods_path flt m (w\<lparr>console := c\<rparr>) =
   settled search rls un mods_path flt m w"
  by (simp add: settled_def path_exists_def)

lemma settled_grows:
  assumes s: "settled search rls un mods_path flt m w"
    and g: "grows (length mods_path + 2) w w'"
  shows "settled search rls un mods_path flt m w'"
  unfolding settled_def
proof
  assume t: "endswith (lower (filename m)) ''.package''"
  with s obtain cat matched where
    cls: "classify search rls un (basename (filename m)) = Inr (cat, matched)"
    and mf: "\<not> mkdir_fails flt (mods_path @ [cat])"
    and nofile: "\<forall>a \<in> set (ancestors (mods_path @ [cat])). files w a = None"
    and there: "set (ancestors (mods_path @ [cat])) \<subseteq> dirs w"
    and ex: "path_exists w (mods_path @ [cat, basename (filename m)])"
    unfolding settled_def by blast
  have "\<forall>a \<in> set (ancestors (mods_path @ [cat])). files w' a = None"
  proof
    fix a
    assume a: "a \<in> set (ancestors (mods_path @ [cat]))"
    then have "length a \<le> length mods_path + 1"
      using ancestors_length [of a "mods_path @ [cat]"] by simp
    then have "length a \<noteq> length mods_path + 2" by simp
    with g have "files w' a = files w a" unfolding grows_def by blast
    with nofile a show "files w' a = None" by simp
  qed
  moreover have "set (ancestors (mods_path @ [cat])) \<subseteq> dirs w'"
    using there g unfolding grows_def by blast
  moreover have "path_exists w' (mods_path @ [cat, basename (filename m)])"
    using ex g unfolding grows_def path_exists_def by blast
  ultimately show "\<exists>cat matched.
       classify search rls un (basename (filename m)) = Inr (cat, matched) \<and>
       \<not> mkdir_fails flt (mods_path @ [cat]) \<and>
       (\<forall>a \<in> set (ancestors (mods_path @ [cat])). files w' a = None) \<and>
       set (ancestors (mods_path @ [cat])) \<subseteq> dirs w' \<and>
       path_exists w' (mods_path @ [cat, basename (filename m)])"
    using cls mf by blast
qed

text \<open>After a pass that did not raise, the member's destination exists.\<close>

lemma settled_after_member:
  assumes pm: "process_member search rls un mods_path flt ms m w = (oc, w')"
    and nf: "\<forall>e. oc \<noteq> Failed e"
  shows "settled search rls un mods_path flt m w'"
  unfolding settled_def
proof
  assume t: "endswith (lower (filename m)) ''.package''"
  from pm nf obtain cat matched where
    cls: "classify search rls un (basename (filename m)) = Inr (cat, matched)"
    by (cases "classify search rls un (basename (filename m))")
      (auto simp: process_member_tracked [OF t])
  from pm nf cls obtain w1 where mk: "mkdir_parents flt (mods_path @ [cat]) w = Inr w1"
    by (cases "mkdir_parents flt (mods_path @ [cat]) w")
      (auto simp: process_member_tracked [OF t])
  note mkd = mkdir_parents_Inr [OF mk]
  let ?dest = "mods_path @ [cat, basename (filename m)]"
  note g = process_member_grows [OF pm]
  have anc: "\<forall>a \<in> set (ancestors (mods_path @ [cat])). files w' a = None"
  proof
    fix a
    assume a: "a \<in> set (ancestors (mods_path @ [cat]))"
    then have "length a \<le> length mods_path + 1"
      using ancestors_length [of a "mods_path @ [cat]"] by simp
    then have "length a \<noteq> length mods_path + 2" by simp
    with g have "files w' a = files w a" unfolding grows_def by blast
    with mkd a show "files w' a = None" by simp
  qed
  have "set (ancestors (mods_path @ [cat])) \<subseteq> dirs w' \<and> path_exists w' ?dest"
  proof (cases "path_exists w1 ?dest")
    case True
    with pm cls mk have "w' = emit (SkipExists cat (basename (filename m))) w1"
      by (simp add: process_member_tracked [OF t])
    with True mkd show ?thesis by (auto simp: emit_def path_exists_def)
  next
    case False
    obtain r w2 where wm: "write_member flt ms m ?dest
        (emit (ExtractTo (basename (filename m)) cat) w1) = (r, w2)"
      by (cases "write_member flt ms m ?dest (emit (ExtractTo (basename (filename m)) cat) w1)")
    from pm nf cls mk False wm have r: "r = None"
      by (cases r) (auto simp: process_member_tracked [OF t])
    from pm cls mk False wm r have eq: "files w' = files w2 \<and> dirs w' = dirs w2"
      by (auto simp: process_member_tracked [OF t] split: if_splits)
    from write_member_None [OF wm [unfolded r]] obtain d where
      "w2 = (emit (ExtractTo (basename (filename m)) cat) w1)\<lparr>files :=
         (files (emit (ExtractTo (basename (filename m)) cat) w1))(?dest \<mapsto> d)\<rparr>"
      by blast
    with eq mkd show ?thesis by (auto simp: emit_def path_exists_def)
  qed
  with cls mkd anc show "\<exists>cat matched.
       classify search rls un (basename (filename m)) = Inr (cat, matched) \<and>
       \<not> mkdir_fails flt (mods_path @ [cat]) \<and>
       (\<forall>a \<in> set (ancestors (mods_path @ [cat])). files w' a = None) \<and>
       set (ancestors (mods_path @ [cat])) \<subseteq> dirs w' \<and>
       path_exists w' (mods_path @ [cat, basename (filename m)])"
    by blast
qed

lemma first_pass_settles:
  assumes "process_members search rls un mods_path flt ms xs w = (ocs, w')"
    and "raised ocs = None"
  shows "\<forall>m \<in> set xs. settled search rls un mods_path flt m w'"
  using assms
proof (induction xs arbitrary: w ocs w')
  case Nil
  show ?case by simp
next
  case (Cons m rest)
  obtain oc wa where pm: "process_member search rls un mods_path flt ms m w = (oc, wa)"
    by (cases "process_member search rls un mods_path flt ms m w")
  obtain ocr wb where rec: "process_members search rls un mods_path flt ms rest wa = (ocr, wb)"
    by (cases "process_members search rls un mods_path flt ms rest wa")
  show ?case
  proof (cases "\<exists>e. oc = Failed e")
    case True
    then obtain e where "oc = Failed e" ..
    with pm Cons.prems show ?thesis by (auto simp: raised_def)
  next
    case False
    then have nf: "\<forall>e. oc \<noteq> Failed e" by simp
    from process_members_step [OF pm nf rec] Cons.prems(1)
    have ocs: "ocs = oc # ocr" and w': "w' = wb" by simp_all
    from Cons.prems(2) ocs nf have r: "raised ocr = None"
      by (cases ocr) (auto simp: raised_def split: outcome.splits)
    have "grows (length mods_path + 2) wa wb"
      using process_members_grows [of mods_path wa search rls un flt ms rest] rec by simp
    with settled_after_member [OF pm nf]
    have "settled search rls un mods_path flt m wb" by (rule settled_grows)
    with Cons.IH [OF rec r] w' show ?thesis by simp
  qed
qed

text \<open>A member whose destination exists is skipped, and only the console changes.\<close>

lemma settled_member_skipped:
  assumes s: "settled search rls un mods_path flt m w"
  shows "\<exists>evs. process_member search rls un mods_path flt ms m w =
      (if endswith (lower (filename m)) ''.package'' then Skipped else Ignored,
       w\<lparr>console := console w @ evs\<rparr>) \<and>
     (\<forall>e \<in> set evs. \<exists>c b. e = SkipExists c b) \<and>
     length evs = (if endswith (lower (filename m)) ''.package'' then 1 else 0)"
proof (cases "endswith (lower (filename m)) ''.package''")
  case False
  then have "process_member search rls un mods_path flt ms m w = (Ignored, w\<lparr>console := console w @ []\<rparr>)"
    by (simp add: process_member_untracked)
  with False show ?thesis by (intro exI [of _ "[]"]) simp
next
  case t: True
  with s obtain cat matched where
    cls: "classify search rls un (basename (filename m)) = Inr (cat, matched)"
    and mf: "\<not> mkdir_fails flt (mods_path @ [cat])"
    and nofile: "\<forall>a \<in> set (ancestors (mods_path @ [cat])). files w a = None"
    and there: "set (ancestors (mods_path @ [cat])) \<subseteq> dirs w"
    and ex: "path_exists w (mods_path @ [cat, basename (filename m)])"
    unfolding settled_def by blast
  from there have "dirs w \<union> set (ancestors (mods_path @ [cat])) = dirs w" by blast
  with mf nofile have mk: "mkdir_parents flt (mods_path @ [cat]) w = Inr w"
    by (simp add: mkdir_parents_def)
  from cls mk ex have "process_member search rls un mods_path flt ms m w =
      (Skipped, w\<lparr>console := console w @ [SkipExists cat (basename (filename m))]\<rparr>)"
    by (simp add: process_member_tracked [OF t] emit_def)
  with t show ?thesis
    by (intro exI [of _ "[SkipExists cat (basename (filename m))]"]) simp
qed

lemma second_pass_skips:
  assumes "\<forall>m \<in> set xs. settled search rls un mods_path flt m w"
  shows "\<exists>evs. process_members search rls un mods_path flt ms xs w =
      (map (\<lambda>m. if endswith (lower (filename m)) ''.package'' then Skipped else Ignored) xs,
       w\<lparr>console := console w @ evs\<rparr>) \<and>
     (\<forall>e \<in> set evs. \<exists>c b. e = SkipExists c b) \<and>
     length evs = length (filter (\<lambda>m. endswith (lower (filename m)) ''.package'') xs)"
  using assms
proof (induction xs arbitrary: w)
  case Nil
  show ?case by (intro exI [of _ "[]"]) simp
next
  case (Cons m rest)
  from Cons.prems have sm: "settled search rls un mods_path flt m w" by simp
  from settled_member_skipped [OF sm, of ms] obtain ev where
    pm: "process_member search rls un mods_path flt ms m w =
      (if endswith (lower (filename m)) ''.package'' then Skipped else Ignored,
       w\<lparr>console := console w @ ev\<rparr>)"
    and evs: "\<forall>e \<in> set ev. \<exists>c b. e = SkipExists c b"
    and len: "length ev = (if endswith (lower (filename m)) ''.package'' then 1 else 0)"
    by blast
  let ?w1 = "w\<lparr>console := console w @ ev\<rparr>"
  from Cons.prems have "\<forall>x \<in> set rest. settled search rls un mods_path flt x ?w1"
    by (simp add: settled_console)
  from Cons.IH [OF this] obtain evr where
    rec: "process_members search rls un mods_path flt ms rest ?w1 =
      (map (\<lambda>m. if endswith (lower (filename m)) ''.package'' then Skipped else Ignored) rest,
       ?w1\<lparr>console := console ?w1 @ evr\<rparr>)"
    and evrs: "\<forall>e \<in> set evr. \<exists>c b. e = SkipExists c b"
    and lenr: "length evr = length (filter (\<lambda>m. endswith (lower (filename m)) ''.package'') rest)"
    by blast
  have nf: "\<forall>e. (if endswith (lower (filename m)) ''.package'' then Skipped else Ignored)
      \<noteq> Failed e" by simp
  from process_members_step [OF pm nf rec]
  have "process_members search rls un mods_path flt ms (m # rest) w =
      (map (\<lambda>m. if endswith (lower (filename m)) ''.package'' then Skipped else Ignored)
         (m # rest),
       w\<lparr>console := console w @ (ev @ evr)\<rparr>)"
    by simp
  moreover from evs evrs have "\<forall>e \<in> set (ev @ evr). \<exists>c b. e = SkipExists c b" by auto
  moreover from len lenr have "length (ev @ evr) =
      length (filter (\<lambda>m. endswith (lower (filename m)) ''.package'') (m # rest))" by simp
  ultimately show ?case by blast
qed

lemma done_outcomes:
  assumes "list_all2 (\<lambda>m oc. if endswith (lower (filename m)) ''.package''
            then oc = Extracted \<or> oc = Skipped else oc = Ignored) xs ocs"
  shows "map (\<lambda>m. if endswith (lower (filename m)) ''.package'' then Skipped else Ignored) xs
       = map (\<lambda>oc. if oc = Ignored then Ignored else Skipped) ocs \<and>
     length (filter (\<lambda>m. endswith (lower (filename m)) ''.package'') xs)
       = length (filter (\<lambda>oc. oc \<noteq> Ignored) ocs)"
  using assms by (induction rule: list_all2_induct) auto


lemma settled_same_tree:
  "files w' = files w \<Longrightarrow> dirs w' = dirs w \<Longrightarrow>
   settled search rls un mods_path flt m w' = settled search rls un mods_path flt m w"
  by (simp add: settled_def path_exists_def)

lemma raised_no_failure: "\<forall>e. Failed e \<notin> set ocs \<Longrightarrow> raised ocs = None"
proof (cases ocs rule: rev_cases)
  case Nil
  then show ?thesis by (simp add: raised_def)
next
  case (snoc ys y)
  assume "\<forall>e. Failed e \<notin> set ocs"
  with snoc have "\<forall>e. y \<noteq> Failed e" by auto
  with snoc show ?thesis by (cases ys; cases y) (simp_all add: raised_def)
qed

text \<open>An archive that has left the source folder was opened, its member loop ran to
  its end, and the move succeeded.\<close>

lemma archive_left_source:
  assumes src: "zip_name a \<in> in_source w"
    and gone: "zip_name a \<notin> in_source (process_archive search cfg mods_path flt a w)"
  obtains ms ocs w1 where "zip_open a = Inr ms"
    and "process_members search (get_rules cfg) (get_unsorted_name cfg) mods_path flt ms ms
           (emit (ProcessingArchive (zip_name a)) w) = (ocs, w1)"
    and "raised ocs = None"
    and "\<not> relocate_fails flt (zip_name a)"
    and "process_archive search cfg mods_path flt a w =
           emit (FinishedArchive (zip_name a))
             (w1\<lparr>in_source := in_source w1 - {zip_name a},
                 in_processed := insert (zip_name a) (in_processed w1)\<rparr>)"
proof -
  let ?w0 = "emit (ProcessingArchive (zip_name a)) w"
  have src0: "in_source ?w0 = in_source w" by (simp add: emit_def)
  show thesis
  proof (cases "zip_open a")
    case (Inl e)
    then have "in_source (process_archive search cfg mods_path flt a w) = in_source w"
      by (simp add: process_archive_def handler_fields emit_def)
    with src gone show ?thesis by simp
  next
    case (Inr ms)
    obtain ocs w1 where all: "process_members search (get_rules cfg) (get_unsorted_name cfg)
        mods_path flt ms ms ?w0 = (ocs, w1)"
      by (cases "process_members search (get_rules cfg) (get_unsorted_name cfg)
        mods_path flt ms ms ?w0")
    have src1: "in_source w1 = in_source w"
      using process_members_grows [of mods_path ?w0 search "get_rules cfg"
          "get_unsorted_name cfg" flt ms ms] all src0 by (simp add: grows_def)
    have r: "raised ocs = None"
    proof (cases "raised ocs")
      case None
      then show ?thesis .
    next
      case (Some e)
      with Inr all have "process_archive search cfg mods_path flt a w = handler (zip_name a) e w1"
        by (simp add: process_archive_def)
      with src1 src gone show ?thesis by (simp add: handler_fields)
    qed
    have nf: "\<not> relocate_fails flt (zip_name a)"
    proof
      assume "relocate_fails flt (zip_name a)"
      with Inr all r have "process_archive search cfg mods_path flt a w
          = handler (zip_name a) OSError w1"
        by (simp add: process_archive_def relocate_def)
      with src1 src gone show False by (simp add: handler_fields)
    qed
    from Inr all r nf have "process_archive search cfg mods_path flt a w =
           emit (FinishedArchive (zip_name a))
             (w1\<lparr>in_source := in_source w1 - {zip_name a},
                 in_processed := insert (zip_name a) (in_processed w1)\<rparr>)"
      by (simp add: process_archive_def relocate_def)
    with Inr all r nf show ?thesis by (rule that)
  qed
qed

text \<open>The whole run over one archive, twice.\<close>

lemma second_run_same_archive:
  assumes run1: "process_zips search cfg mods_path flt True [a] w = Returned w1"
    and src: "zip_name a \<in> in_source w"
    and gone: "zip_name a \<notin> in_source w1"
  shows "\<exists>w2 evs. process_zips search cfg mods_path flt True [a] w1 = Returned w2 \<and>
     files w2 = files w1 \<and> dirs w2 = dirs w1 \<and>
     count_moved w2 = 0 \<and> count_unsorted w2 = 0 \<and>
     console w2 = console w1 @ [FoundZips 1, ProcessingArchive (zip_name a)] @ evs @
       [FinishedArchive (zip_name a), Done 0 0 (get_unsorted_name cfg)] \<and>
     (\<forall>e \<in> set evs. \<exists>c b. e = SkipExists c b)"
proof -
  let ?rls = "get_rules cfg" and ?un = "get_unsorted_name cfg" and ?n = "zip_name a"
  let ?wr = "(emit (FoundZips (Suc 0)) w)\<lparr>count_moved := 0, count_unsorted := 0\<rparr>"
  let ?wa = "process_archive search cfg mods_path flt a ?wr"
  from run1 have w1: "w1 = emit (Done (count_moved ?wa) (count_unsorted ?wa) ?un) ?wa"
    by (simp add: process_zips_def Let_def)
  have srcr: "?n \<in> in_source ?wr" using src by (simp add: emit_def)
  have goner: "?n \<notin> in_source ?wa" using gone w1 by (simp add: emit_def)
  from archive_left_source [OF srcr goner] obtain ms ocs wm where
    op: "zip_open a = Inr ms"
    and first: "process_members search ?rls ?un mods_path flt ms ms
        (emit (ProcessingArchive ?n) ?wr) = (ocs, wm)"
    and ok: "raised ocs = None"
    and nf: "\<not> relocate_fails flt ?n"
    and wa: "?wa = emit (FinishedArchive ?n)
        (wm\<lparr>in_source := in_source wm - {?n}, in_processed := insert ?n (in_processed wm)\<rparr>)"
    by blast
  have tree1: "files w1 = files wm" "dirs w1 = dirs wm"
    using w1 wa by (simp_all add: emit_def)
  let ?vr = "(emit (FoundZips (Suc 0)) w1)\<lparr>count_moved := 0, count_unsorted := 0\<rparr>"
  let ?v0 = "emit (ProcessingArchive ?n) ?vr"
  have tree0: "files ?v0 = files wm" "dirs ?v0 = dirs wm"
    using tree1 by (simp_all add: emit_def)
  from first_pass_settles [OF first ok]
  have "\<forall>m \<in> set ms. settled search ?rls ?un mods_path flt m ?v0"
    using settled_same_tree [OF tree0] by blast
  from second_pass_skips [OF this, of ms] obtain evs where
    second: "process_members search ?rls ?un mods_path flt ms ms ?v0 =
      (map (\<lambda>m. if endswith (lower (filename m)) ''.package'' then Skipped else Ignored) ms,
       ?v0\<lparr>console := console ?v0 @ evs\<rparr>)"
    and ev: "\<forall>e \<in> set evs. \<exists>c b. e = SkipExists c b"
    by blast
  have r2: "raised (map (\<lambda>m. if endswith (lower (filename m)) ''.package''
      then Skipped else Ignored) ms) = None"
    by (rule raised_no_failure) auto
  let ?vm = "?v0\<lparr>console := console ?v0 @ evs\<rparr>"
  let ?va = "emit (FinishedArchive ?n)
      (?vm\<lparr>in_source := in_source ?vm - {?n}, in_processed := insert ?n (in_processed ?vm)\<rparr>)"
  from op second r2 nf have va: "process_archive search cfg mods_path flt a ?vr = ?va"
    by (simp add: process_archive_def relocate_def)
  let ?w2 = "emit (Done (count_moved ?va) (count_unsorted ?va) ?un) ?va"
  have run2: "process_zips search cfg mods_path flt True [a] w1 = Returned ?w2"
    by (simp add: process_zips_def Let_def va)
  have "files ?w2 = files w1 \<and> dirs ?w2 = dirs w1 \<and>
     count_moved ?w2 = 0 \<and> count_unsorted ?w2 = 0 \<and>
     console ?w2 = console w1 @ [FoundZips 1, ProcessingArchive ?n] @ evs @
       [FinishedArchive ?n, Done 0 0 ?un]"
    by (simp add: emit_def)
  with run2 ev show ?thesis by blast
qed

text \<open>No part of the work on an archive changes a file that exists.\<close>

lemma process_archive_keeps_files:
  assumes "files w p = Some c"
  shows "files (process_archive search cfg mods_path flt a w) p = Some c"
proof (cases "zip_open a")
  case (Inl e)
  with assms show ?thesis by (simp add: process_archive_def handler_fields emit_def)
next
  case (Inr ms)
  let ?w0 = "emit (ProcessingArchive (zip_name a)) w"
  obtain ocs w1 where all: "process_members search (get_rules cfg) (get_unsorted_name cfg)
      mods_path flt ms ms ?w0 = (ocs, w1)"
    by (cases "process_members search (get_rules cfg) (get_unsorted_name cfg)
      mods_path flt ms ms ?w0")
  have "grows (length mods_path + 2) ?w0 w1"
    using process_members_grows [of mods_path ?w0 search "get_rules cfg"
        "get_unsorted_name cfg" flt ms ms] all by simp
  with assms have f: "files w1 p = Some c" by (simp add: grows_def emit_def)
  from Inr all f show ?thesis
    by (simp add: process_archive_def handler_fields relocate_def emit_def
        split: option.splits)
qed

lemma process_archives_keeps_files:
  "files w p = Some c \<Longrightarrow> files (process_archives search cfg mods_path flt zs w) p = Some c"
  by (induction zs arbitrary: w) (simp_all add: process_archive_keeps_files)

text \<open>
  C2. A file that exists keeps its content through the whole loop over the archives.
  A member in scope whose destination exists (its category folder being there or
  creatable) is skipped: \<open>[SKIP]\<close> is printed, no file changes and no counter moves.
  Consequently, when the loop over the members of an archive has run to its end, a
  second run of the loop over the same members changes no file, no directory and no
  counter: every member that was extracted or skipped is now skipped, with one
  \<open>[SKIP]\<close> line each, and the ignored members are ignored again. And when a run of
  \<open>process_zips\<close> has moved an archive to the processed folder, a second run that is
  given the same archive again changes no file and no directory, prints only
  \<open>[SKIP]\<close> lines for its members, and reports 0 sorted and 0 unsorted files.
\<close>

theorem existing_file_never_overwritten:
  "(\<forall>p c. files w p = Some c \<longrightarrow>
      files (process_archives search cfg mods_path flt zs w) p = Some c) \<and>
   (\<forall>cat matched w1.
      endswith (lower (filename m)) ''.package'' \<and>
      classify search rls un (basename (filename m)) = Inr (cat, matched) \<and>
      mkdir_parents flt (mods_path @ [cat]) w = Inr w1 \<and>
      path_exists w (mods_path @ [cat, basename (filename m)]) \<longrightarrow>
      process_member search rls un mods_path flt ms m w =
        (Skipped, emit (SkipExists cat (basename (filename m))) w1) \<and>
      files w1 = files w \<and> count_moved w1 = count_moved w \<and>
      count_unsorted w1 = count_unsorted w) \<and>
   (\<forall>ocs w1.
      process_members search rls un mods_path flt ms ms w = (ocs, w1) \<and> raised ocs = None \<longrightarrow>
      (\<exists>evs.
         process_members search rls un mods_path flt ms ms w1 =
           (map (\<lambda>oc. if oc = Ignored then Ignored else Skipped) ocs,
            w1\<lparr>console := console w1 @ evs\<rparr>) \<and>
         (\<forall>e \<in> set evs. \<exists>c b. e = SkipExists c b) \<and>
         length evs = length (filter (\<lambda>oc. oc \<noteq> Ignored) ocs))) \<and>
   (\<forall>w1.
      process_zips search cfg mods_path flt True [a] w = Returned w1 \<and>
      zip_name a \<in> in_source w \<and> zip_name a \<notin> in_source w1 \<longrightarrow>
      (\<exists>w2 evs.
         process_zips search cfg mods_path flt True [a] w1 = Returned w2 \<and>
         files w2 = files w1 \<and> dirs w2 = dirs w1 \<and>
         count_moved w2 = 0 \<and> count_unsorted w2 = 0 \<and>
         console w2 = console w1 @ [FoundZips 1, ProcessingArchive (zip_name a)] @ evs @
           [FinishedArchive (zip_name a), Done 0 0 (get_unsorted_name cfg)] \<and>
         (\<forall>e \<in> set evs. \<exists>c b. e = SkipExists c b)))"
proof (intro conjI allI impI)
  fix p c
  assume "files w p = Some c"
  then show "files (process_archives search cfg mods_path flt zs w) p = Some c"
    by (rule process_archives_keeps_files)
next
  fix cat matched w1
  assume a: "endswith (lower (filename m)) ''.package'' \<and>
      classify search rls un (basename (filename m)) = Inr (cat, matched) \<and>
      mkdir_parents flt (mods_path @ [cat]) w = Inr w1 \<and>
      path_exists w (mods_path @ [cat, basename (filename m)])"
  then have t: "endswith (lower (filename m)) ''.package''"
    and mk: "mkdir_parents flt (mods_path @ [cat]) w = Inr w1" by simp_all
  note mkd = mkdir_parents_Inr [OF mk]
  from a mkd have ex: "path_exists w1 (mods_path @ [cat, basename (filename m)])"
    by (auto simp: path_exists_def)
  from a ex show "process_member search rls un mods_path flt ms m w =
        (Skipped, emit (SkipExists cat (basename (filename m))) w1)"
    by (simp add: process_member_tracked [OF t])
  from mkd show "files w1 = files w" by simp
  from mkd show "count_moved w1 = count_moved w" by simp
  from mkd show "count_unsorted w1 = count_unsorted w" by simp
next
  fix ocs w1
  assume a: "process_members search rls un mods_path flt ms ms w = (ocs, w1) \<and>
      raised ocs = None"
  then have run: "process_members search rls un mods_path flt ms ms w = (ocs, w1)"
    and ok: "raised ocs = None" by simp_all
  from second_pass_skips [OF first_pass_settles [OF run ok], of ms] obtain evs where
    sp: "process_members search rls un mods_path flt ms ms w1 =
      (map (\<lambda>m. if endswith (lower (filename m)) ''.package'' then Skipped else Ignored) ms,
       w1\<lparr>console := console w1 @ evs\<rparr>)"
    and ev: "\<forall>e \<in> set evs. \<exists>c b. e = SkipExists c b"
    and len: "length evs = length (filter (\<lambda>m. endswith (lower (filename m)) ''.package'') ms)"
    by blast
  note d = done_outcomes [OF process_members_done [OF run ok]]
  from sp ev len d show "\<exists>evs.
         process_members search rls un mods_path flt ms ms w1 =
           (map (\<lambda>oc. if oc = Ignored then Ignored else Skipped) ocs,
            w1\<lparr>console := console w1 @ evs\<rparr>) \<and>
         (\<forall>e \<in> set evs. \<exists>c b. e = SkipExists c b) \<and>
         length evs = length (filter (\<lambda>oc. oc \<noteq> Ignored) ocs)"
    by (intro exI [of _ evs]) simp
next
  fix w1
  assume "process_zips search cfg mods_path flt True [a] w = Returned w1 \<and>
      zip_name a \<in> in_source w \<and> zip_name a \<notin> in_source w1"
  then show "\<exists>w2 evs.
         process_zips search cfg mods_path flt True [a] w1 = Returned w2 \<and>
         files w2 = files w1 \<and> dirs w2 = dirs w1 \<and>
         count_moved w2 = 0 \<and> count_unsorted w2 = 0 \<and>
         console w2 = console w1 @ [FoundZips 1, ProcessingArchive (zip_name a)] @ evs @
           [FinishedArchive (zip_name a), Done 0 0 (get_unsorted_name cfg)] \<and>
         (\<forall>e \<in> set evs. \<exists>c b. e = SkipExists c b)"
    using second_run_same_archive [of search cfg mods_path flt a w w1] by blast
qed

theorem existing_file_never_overwritten_witness:
  "fst (process_members re_search_literal (get_rules house_config)
          (get_unsorted_name house_config) [''Mods''] no_faults pack1_members pack1_members
          (emit (ProcessingArchive ''pack1.zip'') example_world))
     = [Extracted, Extracted, Extracted, Ignored] \<and>
   fst (process_members re_search_literal (get_rules house_config)
          (get_unsorted_name house_config) [''Mods''] no_faults pack1_members pack1_members
          (snd (process_members re_search_literal (get_rules house_config)
             (get_unsorted_name house_config) [''Mods''] no_faults pack1_members pack1_members
             (emit (ProcessingArchive ''pack1.zip'') example_world))))
     = [Skipped, Skipped, Skipped, Ignored] \<and>
   files (snd (process_members re_search_literal (get_rules house_config)
          (get_unsorted_name house_config) [''Mods''] no_faults pack1_members pack1_members
          (snd (process_members re_search_literal (get_rules house_config)
             (get_unsorted_name house_config) [''Mods''] no_faults pack1_members pack1_members
             (emit (ProcessingArchive ''pack1.zip'') example_world)))))
       [''Mods'', ''hair'', ''RedHair.package''] = Some ''R'' \<and>
   count_moved (snd (process_members re_search_literal (get_rules house_config)
          (get_unsorted_name house_config) [''Mods''] no_faults pack1_members pack1_members
          (snd (process_members re_search_literal (get_rules house_config)
             (get_unsorted_name house_config) [''Mods''] no_faults pack1_members pack1_members
             (emit (ProcessingArchive ''pack1.zip'') example_world))))) = 2"
proof -
  let ?run = "process_members re_search_literal (get_rules house_config)
      (get_unsorted_name house_config) [''Mods''] no_faults pack1_members pack1_members"
  let ?first = "?run (emit (ProcessingArchive ''pack1.zip'') example_world)"
  have f: "?first = (fst ?first, snd ?first)" by simp
  have ocs: "fst ?first = [Extracted, Extracted, Extracted, Ignored]"
    by (simp add: pack1_members_eval)
  then have r: "raised (fst ?first) = None" by (simp add: raised_def)
  have w1: "files (snd ?first) [''Mods'', ''hair'', ''RedHair.package''] = Some ''R''"
    "count_moved (snd ?first) = 2"
    by (simp_all add: pack1_members_eval)
  from existing_file_never_overwritten [where w = "emit (ProcessingArchive ''pack1.zip'')
      example_world" and search = re_search_literal and rls = "get_rules house_config"
      and un = "get_unsorted_name house_config" and mods_path = "[''Mods'']"
      and flt = no_faults and ms = pack1_members] f r
  obtain evs where "?run (snd ?first) =
      (map (\<lambda>oc. if oc = Ignored then Ignored else Skipped) (fst ?first),
       (snd ?first)\<lparr>console := console (snd ?first) @ evs\<rparr>)"
    by blast
  with ocs w1 show ?thesis by simp
qed

end
